theory Spec2Isabelle
  imports Main "HOL-Library.Sublist"
begin

section \<open>Strings\<close>

text \<open>
  Script text, annotation lines and names are Python \<open>str\<close> values. They are modelled as
  \<open>string\<close> (lists of characters); the model covers ASCII text, for which the Python
  operations used by \<open>cli_runner.py\<close> act character by character.
\<close>

definition NL :: string where
  "NL = [CHR 0x0A]"

text \<open>\<open>str.isspace\<close> on ASCII: tab, LF, VT, FF, CR, FS, GS, RS, US and space. The regular
  expression class \<open>\s\<close> accepts the same characters.\<close>

definition isspace :: "char \<Rightarrow> bool" where
  "isspace c = (c \<in> set [CHR 0x09, CHR 0x0A, CHR 0x0B, CHR 0x0C, CHR 0x0D,
                          CHR 0x1C, CHR 0x1D, CHR 0x1E, CHR 0x1F, CHR 0x20])"

text \<open>\<open>str.strip()\<close>: whitespace is removed at both ends.\<close>

definition strip :: "string \<Rightarrow> string" where
  "strip s = rev (dropWhile isspace (rev (dropWhile isspace s)))"

text \<open>\<open>str.upper()\<close> on ASCII letters; every other character is kept.\<close>

definition upper_table :: "(char \<times> char) list" where
  "upper_table =
    [(CHR ''a'', CHR ''A''), (CHR ''b'', CHR ''B''), (CHR ''c'', CHR ''C''),
     (CHR ''d'', CHR ''D''), (CHR ''e'', CHR ''E''), (CHR ''f'', CHR ''F''),
     (CHR ''g'', CHR ''G''), (CHR ''h'', CHR ''H''), (CHR ''i'', CHR ''I''),
     (CHR ''j'', CHR ''J''), (CHR ''k'', CHR ''K''), (CHR ''l'', CHR ''L''),
     (CHR ''m'', CHR ''M''), (CHR ''n'', CHR ''N''), (CHR ''o'', CHR ''O''),
     (CHR ''p'', CHR ''P''), (CHR ''q'', CHR ''Q''), (CHR ''r'', CHR ''R''),
     (CHR ''s'', CHR ''S''), (CHR ''t'', CHR ''T''), (CHR ''u'', CHR ''U''),
     (CHR ''v'', CHR ''V''), (CHR ''w'', CHR ''W''), (CHR ''x'', CHR ''X''),
     (CHR ''y'', CHR ''Y''), (CHR ''z'', CHR ''Z'')]"

definition upper_char :: "char \<Rightarrow> char" where
  "upper_char c = (case map_of upper_table c of Some u \<Rightarrow> u | None \<Rightarrow> c)"

definition upper :: "string \<Rightarrow> string" where
  "upper s = map upper_char s"

text \<open>\<open>s.replace('-', '_')\<close>.\<close>

definition replace_hyphen :: "string \<Rightarrow> string" where
  "replace_hyphen s = map (\<lambda>c. if c = CHR ''-'' then CHR ''_'' else c) s"

text \<open>\<open>pat in s\<close> for strings: \<open>pat\<close> occurs in \<open>s\<close> as a contiguous substring.\<close>

fun py_in :: "string \<Rightarrow> string \<Rightarrow> bool" where
  "py_in pat [] = (pat = [])"
| "py_in pat (c # cs) = (prefix pat (c # cs) \<or> py_in pat cs)"

text \<open>\<open>s.startswith(pat)\<close> is \<^const>\<open>prefix\<close>.\<close>

text \<open>Formatting a natural number in decimal, as \<open>{i}\<close> does in an f-string.\<close>

definition digit_char :: "nat \<Rightarrow> char" where
  "digit_char d = (''0123456789'' ! d)"

fun str_nat :: "nat \<Rightarrow> string" where
  "str_nat n = (if n < 10 then [digit_char n] else str_nat (n div 10) @ [digit_char (n mod 10)])"

declare str_nat.simps [simp del]

section \<open>The command schema\<close>

text \<open>
  \<open>script_meta\<close> is a dictionary with the keys \<open>description\<close>, \<open>args\<close> and \<open>options\<close>;
  each argument and option is a dictionary again. A key that may be missing (or hold
  \<open>None\<close>) is an \<open>option\<close>-valued field, read with the default that the source gives to
  \<open>dict.get\<close>. The \<open>default\<close> entry of an argument is read in two ways, by
  \<open>arg.get("default")\<close> and by \<open>arg.get("default", "")\<close>, which differ for a key that
  holds \<open>None\<close>: the field \<open>arg_default\<close> is \<open>None\<close> for a missing key, \<open>Some None\<close> for a
  key that holds \<open>None\<close>, and \<open>Some (Some v)\<close> for a key that holds the string \<open>v\<close>. The
  description entries are strings when present, as the parser stores them.
\<close>

record arg_info =
  arg_name :: string
  arg_description :: "string option"
  arg_optional :: "bool option"
  arg_default :: "string option option"

record opt_info =
  opt_name :: string
  opt_description :: "string option"
  opt_short :: "string option"
  opt_flag :: "bool option"
  opt_default :: "string option"

record script_meta =
  meta_description :: "string option"
  meta_args :: "arg_info list"
  meta_options :: "opt_info list"

text \<open>\<open>d.get(key, dflt)\<close>.\<close>

definition get_or :: "'a option \<Rightarrow> 'a \<Rightarrow> 'a" where
  "get_or v dflt = (case v of None \<Rightarrow> dflt | Some x \<Rightarrow> x)"

text \<open>\<open>d.get(key)\<close> and \<open>d.get(key, dflt)\<close> for an entry that may hold \<open>None\<close>: the result is
  the value of the key when the key is there, also when that value is \<open>None\<close>.\<close>

definition dict_get :: "'a option option \<Rightarrow> 'a option" where
  "dict_get e = (case e of None \<Rightarrow> None | Some v \<Rightarrow> v)"

definition dict_get_or :: "'a option option \<Rightarrow> 'a \<Rightarrow> 'a option" where
  "dict_get_or e dflt = (case e of None \<Rightarrow> Some dflt | Some v \<Rightarrow> v)"

text \<open>A string or \<open>None\<close> inside an f-string: \<open>None\<close> is printed as the text \<open>None\<close>.\<close>

definition format_value :: "string option \<Rightarrow> string" where
  "format_value v = (case v of None \<Rightarrow> ''None'' | Some s \<Rightarrow> s)"

section \<open>Reserved names\<close>

definition CLEO_RESERVED_OPTIONS :: "string set" where
  "CLEO_RESERVED_OPTIONS =
     {''verbose'', ''quiet'', ''help'', ''version'', ''no-interaction'', ''ansi'', ''no-ansi''}"

definition CLEO_RESERVED_SHORTCUTS :: "string set" where
  "CLEO_RESERVED_SHORTCUTS = {''v'', ''q'', ''h'', ''V'', ''n''}"

section \<open>\<open>ScriptCommand.arguments\<close>\<close>

text \<open>The value built by cleo's \<open>argument(name, description, optional=, default=)\<close>.\<close>

record cleo_argument =
  ca_name :: string
  ca_description :: string
  ca_optional :: bool
  ca_default :: "string option"

definition build_argument :: "arg_info \<Rightarrow> cleo_argument" where
  "build_argument arg =
     (let has_default = (dict_get (arg_default arg) \<noteq> None);
          is_optional = (get_or (arg_optional arg) False \<or> has_default)
      in \<lparr> ca_name = arg_name arg,
           ca_description = get_or (arg_description arg) [],
           ca_optional = is_optional,
           ca_default = (if is_optional then dict_get (arg_default arg) else None) \<rparr>)"

definition arguments :: "script_meta \<Rightarrow> cleo_argument list" where
  "arguments meta = map build_argument (meta_args meta)"

section \<open>\<open>ScriptCommand.options\<close>\<close>

text \<open>
  The two calls of cleo's \<open>option\<close> helper: a flag option receives name, shortcut and
  description; a value option also \<open>value_required\<close> and \<open>default\<close>.
\<close>

datatype cleo_option =
  FlagOption string "string option" string
| ValueOption string "string option" string bool "string option"

fun co_name :: "cleo_option \<Rightarrow> string" where
  "co_name (FlagOption n s d) = n"
| "co_name (ValueOption n s d r dflt) = n"

fun co_shortcut :: "cleo_option \<Rightarrow> string option" where
  "co_shortcut (FlagOption n s d) = s"
| "co_shortcut (ValueOption n s d r dflt) = s"

text \<open>The long name offered on the command line.\<close>

definition effective_name :: "string \<Rightarrow> string" where
  "effective_name name = (if name \<in> CLEO_RESERVED_OPTIONS then name @ ''-sh'' else name)"

text \<open>\<open>short and short in CLEO_RESERVED_SHORTCUTS\<close>: \<open>None\<close> and the empty string are
  falsy.\<close>

definition shortcut_conflicts :: "string option \<Rightarrow> bool" where
  "shortcut_conflicts short =
     (case short of None \<Rightarrow> False | Some s \<Rightarrow> s \<noteq> [] \<and> s \<in> CLEO_RESERVED_SHORTCUTS)"

definition effective_short :: "string option \<Rightarrow> string option" where
  "effective_short short = (if shortcut_conflicts short then None else short)"

text \<open>The two lines printed when a shortcut is dropped.\<close>

definition conflict_warning :: "opt_info \<Rightarrow> string list" where
  "conflict_warning opt =
     (if shortcut_conflicts (opt_short opt) then
        [''Warning: Shortcut '' @ [CHR 0x27] @ ''-'' @ the (opt_short opt) @ [CHR 0x27]
           @ '' for option '' @ [CHR 0x27] @ opt_name opt @ [CHR 0x27]
           @ '' conflicts with CLI reserved shortcuts.'',
         ''Use --'' @ effective_name (opt_name opt)
           @ '' instead, or choose a different shortcut in your script.'']
      else [])"

definition build_option :: "opt_info \<Rightarrow> cleo_option" where
  "build_option opt =
     (let option_name = effective_name (opt_name opt);
          short = effective_short (opt_short opt);
          is_flag = get_or (opt_flag opt) False;
          dflt = opt_default opt
      in if is_flag then FlagOption option_name short (get_or (opt_description opt) [])
         else ValueOption option_name short (get_or (opt_description opt) [])
                (dflt = None) dflt)"

text \<open>The property returns the list of options; the second component is what it prints.\<close>

definition options :: "script_meta \<Rightarrow> cleo_option list \<times> string list" where
  "options meta =
     (map build_option (meta_options meta), concat (map conflict_warning (meta_options meta)))"

section \<open>Values handed over by the CLI framework\<close>

text \<open>\<open>self.argument(name)\<close> and \<open>self.option(name)\<close> return \<open>None\<close>, a string, or (for a
  flag) a boolean.\<close>

datatype pyval = PyNone | PyBool bool | PyStr string

fun truthy :: "pyval \<Rightarrow> bool" where
  "truthy PyNone = False"
| "truthy (PyBool b) = b"
| "truthy (PyStr s) = (s \<noteq> [])"

fun py_str :: "pyval \<Rightarrow> string" where
  "py_str PyNone = ''None''"
| "py_str (PyBool b) = (if b then ''True'' else ''False'')"
| "py_str (PyStr s) = s"

text \<open>The first loop of \<open>handle\<close>: the positional arguments of the child process.\<close>

fun collect_script_args :: "(string \<Rightarrow> pyval) \<Rightarrow> arg_info list \<Rightarrow> string list" where
  "collect_script_args argument [] = []"
| "collect_script_args argument (arg_def # rest) =
     (let v = argument (arg_name arg_def)
      in if truthy v then py_str v # collect_script_args argument rest
         else collect_script_args argument rest)"

text \<open>The second loop of \<open>handle\<close>: the environment of the child process.\<close>

type_synonym env = "string \<rightharpoonup> string"

definition var_name_of :: "string \<Rightarrow> string" where
  "var_name_of name = upper (replace_hyphen name)"

fun prepare_env :: "(string \<Rightarrow> pyval) \<Rightarrow> opt_info list \<Rightarrow> env \<Rightarrow> env" where
  "prepare_env option_value [] e = e"
| "prepare_env option_value (opt_def # rest) e =
     (let original_name = opt_name opt_def;
          v = option_value (effective_name original_name)
      in if truthy v then
           prepare_env option_value rest
             (e(''CLI_'' @ var_name_of original_name \<mapsto>
                  (if get_or (opt_flag opt_def) False then ''1'' else py_str v)))
         else prepare_env option_value rest e)"

section \<open>The runner block\<close>

definition SCRIPT_RUNNER_START :: string where
  "SCRIPT_RUNNER_START = ''# <SCRIPT-RUNNER>''"

definition SCRIPT_RUNNER_END :: string where
  "SCRIPT_RUNNER_END = ''# </SCRIPT-RUNNER>''"

definition USER_SETTING :: string where
  "USER_SETTING = ''# USER SETTING''"

text \<open>One binding line per option, as the f-strings of \<open>_create_temp_script\<close> format it.\<close>

definition option_line :: "opt_info \<Rightarrow> string" where
  "option_line opt =
     (let var_name = var_name_of (opt_name opt)
      in if get_or (opt_flag opt) False then
           var_name @ ''=${CLI_'' @ var_name @ '':-0}'' @ NL
         else
           (let dflt = get_or (opt_default opt) []
            in if dflt \<noteq> [] then
                 var_name @ ''=${$'' @ var_name @ '':-${CLI_'' @ var_name @ '':-'' @ dflt
                   @ ''}}'' @ NL
               else
                 var_name @ ''=${$'' @ var_name @ '':-${CLI_'' @ var_name @ ''}}'' @ NL))"

definition arg_line :: "nat \<Rightarrow> arg_info \<Rightarrow> string" where
  "arg_line i arg =
     var_name_of (arg_name arg) @ ''=${'' @ str_nat i @ '':-''
       @ format_value (dict_get_or (arg_default arg) []) @ ''}'' @ NL"

text \<open>\<open>for i, arg in enumerate(args, 1)\<close>.\<close>

fun arg_lines :: "nat \<Rightarrow> arg_info list \<Rightarrow> string" where
  "arg_lines i [] = []"
| "arg_lines i (arg # rest) = arg_line i arg @ arg_lines (Suc i) rest"

text \<open>The binding lines, for the options first and then for the arguments, and the block
  that wraps them between the two marker lines and ends with a blank line.\<close>

definition binding_lines :: "script_meta \<Rightarrow> string" where
  "binding_lines meta =
     concat (map option_line (meta_options meta)) @ arg_lines 1 (meta_args meta)"

definition runner_block :: "script_meta \<Rightarrow> string" where
  "runner_block meta =
     SCRIPT_RUNNER_START @ NL @ binding_lines meta @ SCRIPT_RUNNER_END @ NL @ NL"

text \<open>The number of places at which \<open>pat\<close> occurs in a text.\<close>

fun occurrences :: "string \<Rightarrow> string \<Rightarrow> nat" where
  "occurrences pat [] = (if pat = [] then 1 else 0)"
| "occurrences pat (c # cs) = (if prefix pat (c # cs) then 1 else 0) + occurrences pat cs"

section \<open>\<open>parse_script_metadata\<close>\<close>

text \<open>
  The parser applies \<open>re.match\<close> to each stripped line. The matchers below follow the two
  patterns piece by piece. A greedy piece is followed by something that none of its own
  characters can start (\<open>\s+\<close> by \<open>\[\<close>, \<open>[^\]]+\<close> by \<open>\]\<close>, \<open>\s*\<close> by \<open>:\<close>, \<open>\w+\<close> by
  whitespace or \<open>:\<close>), so giving back characters never helps there and only the longest
  run is tried. The exception is the name group \<open>([^,]+)\<close> of the option pattern, which can
  run over brackets, whitespace and colons: there every length is tried, the longest first,
  as the regular expression engine does.
\<close>

text \<open>\<open>\w\<close> on ASCII: letters, digits and the underscore.\<close>

definition is_word_char :: "char \<Rightarrow> bool" where
  "is_word_char c =
     (let n = (of_char c :: nat)
      in (48 \<le> n \<and> n \<le> 57) \<or> (65 \<le> n \<and> n \<le> 90) \<or> (97 \<le> n \<and> n \<le> 122) \<or> n = 95)"

text \<open>\<open>\s*:\s*(.*)\<close>: the description runs to the end of the line.\<close>

definition match_final :: "string \<Rightarrow> string option" where
  "match_final t =
     (case dropWhile isspace t of
        [] \<Rightarrow> None
      | c # r \<Rightarrow> if c = CHR '':'' then Some (takeWhile (\<lambda>x. x \<noteq> CHR 0x0A) (dropWhile isspace r))
                else None)"

text \<open>\<open>\s+\[([^\]]+)\]\<close>: the modifier text and what follows the closing bracket.\<close>

definition match_modifiers :: "string \<Rightarrow> (string \<times> string) option" where
  "match_modifiers t =
     (if takeWhile isspace t = [] then None
      else case dropWhile isspace t of
             [] \<Rightarrow> None
           | c # r1 \<Rightarrow>
               if c \<noteq> CHR ''['' then None
               else let m = takeWhile (\<lambda>x. x \<noteq> CHR '']'') r1
                    in if m = [] then None
                       else (case dropWhile (\<lambda>x. x \<noteq> CHR '']'') r1 of
                               [] \<Rightarrow> None
                             | _ # r3 \<Rightarrow> Some (m, r3)))"

text \<open>\<open>(\s+\[([^\]]+)\])?\s*:\s*(.*)\<close> after the shortcut has been settled.\<close>

definition match_mods_final ::
  "string option \<Rightarrow> string \<Rightarrow> (string option \<times> string option \<times> string) option" where
  "match_mods_final short t =
     (case match_modifiers t of
        Some (m, r) \<Rightarrow>
          (case match_final r of
             Some d \<Rightarrow> Some (short, Some m, d)
           | None \<Rightarrow> map_option (\<lambda>d. (short, None, d)) (match_final t))
      | None \<Rightarrow> map_option (\<lambda>d. (short, None, d)) (match_final t))"

text \<open>\<open>(?:,(\w+))?(\s+\[([^\]]+)\])?\s*:\s*(.*)\<close>: what follows the name.\<close>

definition match_option_tail ::
  "string \<Rightarrow> (string option \<times> string option \<times> string) option" where
  "match_option_tail t =
     (case t of
        [] \<Rightarrow> match_mods_final None t
      | c # r \<Rightarrow>
          if c = CHR '','' \<and> takeWhile is_word_char r \<noteq> [] then
            (case match_mods_final (Some (takeWhile is_word_char r)) (dropWhile is_word_char r) of
               Some x \<Rightarrow> Some x
             | None \<Rightarrow> match_mods_final None t)
          else match_mods_final None t)"

text \<open>The name group takes \<open>k\<close> characters, for \<open>k\<close> from the longest comma-free run down
  to one; the first length for which the rest of the pattern matches wins.\<close>

fun try_name :: "string \<Rightarrow> nat \<Rightarrow> (string \<times> string option \<times> string option \<times> string) option" where
  "try_name r 0 = None"
| "try_name r (Suc k) =
     (case match_option_tail (drop (Suc k) r) of
        Some (short, modifiers, d) \<Rightarrow> Some (take (Suc k) r, short, modifiers, d)
      | None \<Rightarrow> try_name r k)"

text \<open>\<open>re.match(r"# @option ([^,]+)(?:,(\w+))?(\s+\[([^\]]+)\])?\s*:\s*(.*)", line)\<close>;
  the result is \<open>(name, short, modifiers, desc)\<close>.\<close>

definition match_option ::
  "string \<Rightarrow> (string \<times> string option \<times> string option \<times> string) option" where
  "match_option line =
     (if prefix ''# @option '' line then
        (let r = drop (length ''# @option '') line
         in try_name r (length (takeWhile (\<lambda>x. x \<noteq> CHR '','') r)))
      else None)"

text \<open>\<open>re.search(r"default=([^\]]+)", modifiers)\<close>, group 1.\<close>

fun search_default :: "string \<Rightarrow> string option" where
  "search_default [] = None"
| "search_default (c # cs) =
     (if prefix ''default='' (c # cs)
         \<and> takeWhile (\<lambda>x. x \<noteq> CHR '']'') (drop (length ''default='') (c # cs)) \<noteq> []
      then Some (takeWhile (\<lambda>x. x \<noteq> CHR '']'') (drop (length ''default='') (c # cs)))
      else search_default cs)"

text \<open>The dictionary built for a matched option line.\<close>

definition make_opt_info ::
  "string \<times> string option \<times> string option \<times> string \<Rightarrow> opt_info" where
  "make_opt_info g =
     (case g of (name, short, modifiers, desc) \<Rightarrow>
        (let opt = \<lparr> opt_name = strip name, opt_description = Some desc, opt_short = short,
                      opt_flag = None, opt_default = None \<rparr>
         in case modifiers of
              None \<Rightarrow> opt \<lparr> opt_flag := Some False \<rparr>
            | Some m \<Rightarrow>
                if m = [] then opt \<lparr> opt_flag := Some False \<rparr>
                else if py_in ''flag'' m then opt \<lparr> opt_flag := Some True \<rparr>
                else if py_in ''default='' m then
                  (case search_default m of
                     Some v \<Rightarrow> opt \<lparr> opt_flag := Some False, opt_default := Some v \<rparr>
                   | None \<Rightarrow> opt)
                else opt \<lparr> opt_flag := Some False \<rparr>))"

definition parse_option_line :: "string \<Rightarrow> opt_info option" where
  "parse_option_line line = map_option make_opt_info (match_option line)"

text \<open>The repeated modifier group of the argument pattern: the iterations are consumed
  one after the other and the last one is the group's value.\<close>

lemma match_modifiers_shorter:
  "match_modifiers t = Some (m, r) \<Longrightarrow> length r < length t"
proof -
  assume a: "match_modifiers t = Some (m, r)"
  have l: "length (dropWhile P xs) \<le> length xs" for P and xs :: string
    by (induction xs) simp_all
  from a obtain c r1 x where
      d1: "dropWhile isspace t = c # r1" and d2: "dropWhile (\<lambda>x. x \<noteq> CHR '']'') r1 = x # r"
    by (auto simp: match_modifiers_def Let_def split: if_splits list.splits)
  have "length r < length r1" using l [of "\<lambda>x. x \<noteq> CHR '']''" r1] d2 by simp
  moreover have "length r1 < length t" using l [of isspace t] d1 by simp
  ultimately show ?thesis by simp
qed

function match_arg_modifiers :: "string option \<Rightarrow> string \<Rightarrow> string option \<times> string" where
  "match_arg_modifiers prev t =
     (case match_modifiers t of
        None \<Rightarrow> (prev, t)
      | Some (m, r) \<Rightarrow> match_arg_modifiers (Some m) r)"
  by pat_completeness auto
termination
  by (relation "measure (\<lambda>(prev, t). length t)") (auto dest: match_modifiers_shorter)

declare match_arg_modifiers.simps [simp del]

text \<open>\<open>re.match(r"# @arg (\w+)(\s+\[([^\]]+)\])*\s*:\s*(.*)", line)\<close>; the result is
  \<open>(name, modifiers, desc)\<close>.\<close>

definition match_arg :: "string \<Rightarrow> (string \<times> string option \<times> string) option" where
  "match_arg line =
     (if prefix ''# @arg '' line then
        (let r = drop (length ''# @arg '') line;
             name = takeWhile is_word_char r
         in if name = [] then None
            else (case match_arg_modifiers None (dropWhile is_word_char r) of
                    (modifiers, rest) \<Rightarrow>
                      map_option (\<lambda>d. (name, modifiers, d)) (match_final rest)))
      else None)"

definition make_arg_info :: "string \<times> string option \<times> string \<Rightarrow> arg_info" where
  "make_arg_info g =
     (case g of (name, modifiers, desc) \<Rightarrow>
        (let arg = \<lparr> arg_name = name, arg_description = Some desc, arg_optional = None,
                      arg_default = None \<rparr>
         in case modifiers of
              None \<Rightarrow> arg
            | Some m \<Rightarrow>
                if m = [] then arg
                else
                  (let arg1 = (if py_in ''optional'' m then arg \<lparr> arg_optional := Some True \<rparr>
                               else arg)
                   in if py_in ''default='' m then
                        (case search_default m of
                           Some v \<Rightarrow> arg1 \<lparr> arg_default := Some (Some v) \<rparr>
                         | None \<Rightarrow> arg1)
                      else arg1)))"

definition parse_arg_line :: "string \<Rightarrow> arg_info option" where
  "parse_arg_line line = map_option make_arg_info (match_arg line)"

text \<open>One iteration of the loop over the lines of the file.\<close>

definition parse_line :: "script_meta \<Rightarrow> string \<Rightarrow> script_meta" where
  "parse_line metadata raw =
     (let line = strip raw
      in if prefix ''# @description:'' line then
           metadata \<lparr> meta_description :=
             Some (strip (drop 1 (dropWhile (\<lambda>x. x \<noteq> CHR '':'') line))) \<rparr>
         else if prefix ''# @arg'' line then
           (case parse_arg_line line of
              Some a \<Rightarrow> metadata \<lparr> meta_args := meta_args metadata @ [a] \<rparr>
            | None \<Rightarrow> metadata)
         else if prefix ''# @option'' line then
           (case parse_option_line line of
              Some opt \<Rightarrow> metadata \<lparr> meta_options := meta_options metadata @ [opt] \<rparr>
            | None \<Rightarrow> metadata)
         else metadata)"

text \<open>The file is given as the list of its lines.\<close>

definition parse_script_metadata :: "string list \<Rightarrow> script_meta" where
  "parse_script_metadata file_lines =
     foldl parse_line \<lparr> meta_description = None, meta_args = [], meta_options = [] \<rparr> file_lines"

section \<open>The script transformation\<close>

text \<open>
  \<open>re.sub(r"# <SCRIPT-RUNNER>.*?# </SCRIPT-RUNNER>\n", "", content, flags=re.DOTALL)\<close>.
  A match starts at the leftmost start marker that has an end marker line after it and,
  the middle being non-greedy, ends with the first such end marker; the search goes on
  behind the match. When no end marker line follows a start marker, none follows a later
  start marker either, and the rest of the text is kept.
\<close>

text \<open>What follows the first occurrence of \<open>pat\<close> in a text.\<close>

fun skip_past :: "string \<Rightarrow> string \<Rightarrow> string option" where
  "skip_past pat [] = (if pat = [] then Some [] else None)"
| "skip_past pat (c # cs) =
     (if prefix pat (c # cs) then Some (drop (length pat) (c # cs)) else skip_past pat cs)"

lemma skip_past_length: "skip_past pat s = Some r \<Longrightarrow> length r \<le> length s"
  by (induction s) (auto split: if_splits)

function remove_runner_block :: "string \<Rightarrow> string" where
  "remove_runner_block [] = []"
| "remove_runner_block (c # cs) =
     (if prefix SCRIPT_RUNNER_START (c # cs) then
        (case skip_past (SCRIPT_RUNNER_END @ NL) (drop (length SCRIPT_RUNNER_START) (c # cs)) of
           Some rest \<Rightarrow> remove_runner_block rest
         | None \<Rightarrow> c # cs)
      else c # remove_runner_block cs)"
  by pat_completeness auto
termination
proof (relation "measure length")
  show "wf (measure length)" by simp
next
  fix c :: char and cs rest :: string
  assume "skip_past (SCRIPT_RUNNER_END @ NL) (drop (length SCRIPT_RUNNER_START) (c # cs)) = Some rest"
  then have "length rest \<le> length (drop (length SCRIPT_RUNNER_START) (c # cs))"
    by (rule skip_past_length)
  then show "(rest, c # cs) \<in> measure length"
    by (simp add: SCRIPT_RUNNER_START_def)
next
  fix c :: char and cs :: string
  show "(cs, c # cs) \<in> measure length" by simp
qed

declare remove_runner_block.simps(2) [simp del]

text \<open>\<open>s.split(sep)\<close> for a non-empty separator: the pieces between the occurrences of
  \<open>sep\<close>, found from the left without overlap. (Python raises \<open>ValueError\<close> for an empty
  separator; the separators of this program are the constants \<^const>\<open>NL\<close> and
  \<^const>\<open>USER_SETTING\<close>.)\<close>

fun find_split :: "string \<Rightarrow> string \<Rightarrow> (string \<times> string) option" where
  "find_split sep [] = None"
| "find_split sep (c # cs) =
     (if prefix sep (c # cs) then Some ([], drop (length sep) (c # cs))
      else map_option (\<lambda>(b, a). (c # b, a)) (find_split sep cs))"

lemma find_split_length:
  "find_split sep s = Some (b, a) \<Longrightarrow> length b + length sep + length a = length s"
proof (induction s arbitrary: b)
  case Nil
  then show ?case by simp
next
  case (Cons c cs)
  show ?case
  proof (cases "prefix sep (c # cs)")
    case True
    then have "length sep \<le> length (c # cs)" by (rule prefix_length_le)
    with True Cons.prems show ?thesis by auto
  next
    case False
    with Cons.prems obtain b' where "find_split sep cs = Some (b', a)" and "b = c # b'"
      by auto
    with Cons.IH [of b'] show ?thesis by simp
  qed
qed

function py_split :: "string \<Rightarrow> string \<Rightarrow> string list" where
  "py_split sep s =
     (if sep = [] then [s]
      else case find_split sep s of
             None \<Rightarrow> [s]
           | Some (b, a) \<Rightarrow> b # py_split sep a)"
  by pat_completeness auto
termination
proof (relation "measure (\<lambda>(sep, s). length s)")
  show "wf (measure (\<lambda>(sep, s). length s))" by simp
next
  fix sep s and x :: "string \<times> string" and b a
  assume "sep \<noteq> []" and "find_split sep s = Some x" and "(b, a) = x"
  then have "length b + length sep + length a = length s" and "sep \<noteq> []"
    by (simp_all add: find_split_length)
  then show "((sep, a), (sep, s)) \<in> measure (\<lambda>(sep, s). length s)"
    by (cases sep) simp_all
qed

declare py_split.simps [simp del]

text \<open>\<open>"\n".join(xs)\<close>.\<close>

fun join_nl :: "string list \<Rightarrow> string" where
  "join_nl [] = []"
| "join_nl [x] = x"
| "join_nl (x # y # rest) = x @ NL @ join_nl (y # rest)"

text \<open>The loop that looks for the end of the user setting section: \<open>insert_idx\<close> is the
  index of the first line at which the loop breaks, and stays 0 when it never does.\<close>

fun find_insert_idx :: "nat \<Rightarrow> string list \<Rightarrow> nat" where
  "find_insert_idx i [] = 0"
| "find_insert_idx i (line # rest) =
     (if strip line \<noteq> [] \<and> \<not> prefix ''#'' (strip line) then i
      else if prefix ''# '' (strip line) \<and> \<not> py_in ''USER SETTING'' line then i
      else find_insert_idx (Suc i) rest)"

definition insert_runner_block :: "string \<Rightarrow> string \<Rightarrow> string" where
  "insert_runner_block block content =
     (if py_in USER_SETTING content then
        (let parts = py_split USER_SETTING content
         in if 2 \<le> length parts then
              (let after_user_setting = parts ! 1;
                   lines = py_split NL after_user_setting;
                   insert_idx = find_insert_idx 0 lines;
                   before_insert = join_nl (take insert_idx lines);
                   after_insert = join_nl (drop insert_idx lines)
               in parts ! 0 @ USER_SETTING @ before_insert @ NL @ NL @ block @ after_insert)
            else content @ NL @ block)
      else
        (let lines = py_split NL content
         in if prefix ''#!'' (hd lines) then
              hd lines @ NL @ NL @ block @ join_nl (tl lines)
            else block @ content))"

text \<open>The text that \<open>_create_temp_script\<close> writes to the temporary file.\<close>

definition transform_script :: "script_meta \<Rightarrow> string \<Rightarrow> string" where
  "transform_script meta content =
     insert_runner_block (runner_block meta) (remove_runner_block content)"

section \<open>\<open>ScriptCommand.handle\<close>\<close>

text \<open>
  The file system is a map from paths to file contents. What the command cannot decide
  itself is a parameter: the values parsed from the command line, the environment of
  the process, the name chosen by \<open>tempfile.mkstemp\<close> and the run of the child process,
  which may change the file system and either exits with a code or cannot be launched
  (\<open>subprocess.run\<close> raises).
\<close>

type_synonym filesystem = "string \<rightharpoonup> string"

datatype run_result = Exited int | LaunchFailed

datatype error = FileNotFound | ExecutionError

record host =
  h_argument :: "string \<Rightarrow> pyval"
  h_option :: "string \<Rightarrow> pyval"
  h_environ :: env
  h_mkstemp :: "filesystem \<Rightarrow> string"
  h_run :: "string list \<Rightarrow> env \<Rightarrow> filesystem \<Rightarrow> run_result \<times> filesystem"

text \<open>\<open>_create_temp_script\<close>: reading a script that does not exist raises; otherwise the
  transformed text is written to a new file, whose path is returned.\<close>

definition create_temp_script ::
  "host \<Rightarrow> script_meta \<Rightarrow> string \<Rightarrow> filesystem \<Rightarrow> error + (string \<times> filesystem)" where
  "create_temp_script h meta script_path fs =
     (case fs script_path of
        None \<Rightarrow> Inl FileNotFound
      | Some content \<Rightarrow>
          (let temp_path = h_mkstemp h fs
           in Inr (temp_path, fs(temp_path \<mapsto> transform_script meta content))))"

text \<open>The \<open>finally\<close> clause: the file is unlinked when it still exists.\<close>

definition cleanup :: "string \<Rightarrow> filesystem \<Rightarrow> filesystem" where
  "cleanup temp_script fs = (if temp_script \<in> dom fs then fs(temp_script := None) else fs)"

definition handle ::
  "host \<Rightarrow> script_meta \<Rightarrow> string \<Rightarrow> filesystem \<Rightarrow> (error + int) \<times> filesystem" where
  "handle h meta script_path fs =
     (let script_args = collect_script_args (h_argument h) (meta_args meta);
          env = prepare_env (h_option h) (meta_options meta) (h_environ h)
      in case create_temp_script h meta script_path fs of
           Inl e \<Rightarrow> (Inl e, fs)
         | Inr (temp_script, fs1) \<Rightarrow>
             (case h_run h ([''bash'', temp_script] @ script_args) env fs1 of
                (Exited returncode, fs2) \<Rightarrow> (Inr returncode, cleanup temp_script fs2)
              | (LaunchFailed, fs2) \<Rightarrow> (Inl ExecutionError, cleanup temp_script fs2)))"

section \<open>Sample inputs\<close>

text \<open>A schema without arguments and options, and two hosts: one whose child process
  cannot be launched and one whose child process exits with code 3.\<close>

definition demo_meta :: script_meta where
  "demo_meta = \<lparr>meta_description = None, meta_args = [], meta_options = []\<rparr>"

definition failing_host :: host where
  "failing_host = \<lparr> h_argument = (\<lambda>n. PyNone), h_option = (\<lambda>n. PyNone), h_environ = Map.empty,
      h_mkstemp = (\<lambda>fs. ''/tmp/script_runner_1.sh''),
      h_run = (\<lambda>argv env fs. (LaunchFailed, fs)) \<rparr>"

definition exiting_host :: host where
  "exiting_host = \<lparr> h_argument = (\<lambda>n. PyNone), h_option = (\<lambda>n. PyNone), h_environ = Map.empty,
      h_mkstemp = (\<lambda>fs. ''/tmp/script_runner_1.sh''),
      h_run = (\<lambda>argv env fs. (Exited 3, fs)) \<rparr>"

definition greet_meta :: script_meta where
  "greet_meta =
     \<lparr>meta_description = Some ''Greet'',
      meta_args = [\<lparr>arg_name = ''name'', arg_description = Some ''Who'', arg_optional = None,
                     arg_default = None\<rparr>],
      meta_options = [\<lparr>opt_name = ''verbose'', opt_description = Some ''Verbose'',
                        opt_short = Some ''v'', opt_flag = Some True, opt_default = None\<rparr>]\<rparr>"

definition greet_script :: string where
  "greet_script = ''#!/bin/bash'' @ NL @ ''echo hello'' @ NL"

section \<open>Notions used in the proofs about re-transformation\<close>

text \<open>No occurrence of \<open>pat\<close> in \<open>x @ y\<close> starts in \<open>x\<close> and ends in \<open>y\<close>.\<close>

definition straddle_free :: "string \<Rightarrow> string \<Rightarrow> string \<Rightarrow> bool" where
  "straddle_free pat x y = (\<forall>t. t \<noteq> [] \<and> suffix t x \<longrightarrow> (prefix pat (t @ y) \<longleftrightarrow> prefix pat t))"

text \<open>A text in which neither marker occurs, and a text that consists of one generated
  block between two such texts, the first of them empty or ending a line.\<close>

definition marker_free :: "string \<Rightarrow> bool" where
  "marker_free x = (\<not> sublist SCRIPT_RUNNER_START x \<and> \<not> sublist SCRIPT_RUNNER_END x)"

definition one_block :: "script_meta \<Rightarrow> string \<Rightarrow> bool" where
  "one_block meta x =
     (\<exists>P Q. x = P @ runner_block meta @ Q \<and> marker_free P \<and> marker_free Q
         \<and> (P = [] \<or> last P = CHR 0x0A))"

text \<open>The two conditions under which the loop of the user setting branch breaks at a line.\<close>

definition line_breaks :: "string \<Rightarrow> bool" where
  "line_breaks line =
     (strip line \<noteq> [] \<and> \<not> prefix ''#'' (strip line)
      \<or> prefix ''# '' (strip line) \<and> \<not> py_in ''USER SETTING'' line)"

section \<open>Command-line interface\<close>

lemma effective_short_alt:
  "effective_short short =
     (case short of None \<Rightarrow> None
      | Some s \<Rightarrow> if s \<in> CLEO_RESERVED_SHORTCUTS then None else Some s)"
  by (auto simp: effective_short_def shortcut_conflicts_def CLEO_RESERVED_SHORTCUTS_def
      split: option.splits)

lemma co_name_build_option: "co_name (build_option opt) = effective_name (opt_name opt)"
  by (simp add: build_option_def Let_def)

lemma co_shortcut_build_option: "co_shortcut (build_option opt) = effective_short (opt_short opt)"
  by (simp add: build_option_def Let_def)

text \<open>Claim C4. The options built for the command line carry, in declaration order, the declared
  name with \<open>-sh\<close> appended when it is reserved and the declared name otherwise; the
  shortcut is dropped when it is reserved and kept otherwise; the long name is never
  suppressed (the declared name is a prefix of the effective one); an option \<open>help\<close> with
  shortcut \<open>h\<close> becomes \<open>help-sh\<close> without shortcut.\<close>

theorem conflict_resolution:
  "map co_name (fst (options meta)) =
     map (\<lambda>opt. if opt_name opt \<in> CLEO_RESERVED_OPTIONS then opt_name opt @ ''-sh''
                else opt_name opt) (meta_options meta)
   \<and> map co_shortcut (fst (options meta)) =
     map (\<lambda>opt. case opt_short opt of None \<Rightarrow> None
                | Some s \<Rightarrow> if s \<in> CLEO_RESERVED_SHORTCUTS then None else Some s)
       (meta_options meta)
   \<and> prefix (opt_name opt) (co_name (build_option opt))
   \<and> co_name (build_option \<lparr>opt_name = ''help'', opt_description = d,
         opt_short = Some ''h'', opt_flag = f, opt_default = dflt\<rparr>) = ''help-sh''
   \<and> co_shortcut (build_option \<lparr>opt_name = ''help'', opt_description = d,
         opt_short = Some ''h'', opt_flag = f, opt_default = dflt\<rparr>) = None"
proof -
  have n: "map co_name (fst (options meta)) =
     map (\<lambda>opt. if opt_name opt \<in> CLEO_RESERVED_OPTIONS then opt_name opt @ ''-sh''
                else opt_name opt) (meta_options meta)"
    by (simp add: options_def co_name_build_option effective_name_def)
  have s: "map co_shortcut (fst (options meta)) =
     map (\<lambda>opt. case opt_short opt of None \<Rightarrow> None
                | Some s \<Rightarrow> if s \<in> CLEO_RESERVED_SHORTCUTS then None else Some s)
       (meta_options meta)"
    by (simp add: options_def co_shortcut_build_option effective_short_alt)
  have p: "prefix (opt_name opt) (co_name (build_option opt))"
    by (simp add: co_name_build_option effective_name_def)
  have h1: "co_name (build_option \<lparr>opt_name = ''help'', opt_description = d,
         opt_short = Some ''h'', opt_flag = f, opt_default = dflt\<rparr>) = ''help-sh''"
    by (simp add: co_name_build_option effective_name_def CLEO_RESERVED_OPTIONS_def)
  have h2: "co_shortcut (build_option \<lparr>opt_name = ''help'', opt_description = d,
         opt_short = Some ''h'', opt_flag = f, opt_default = dflt\<rparr>) = None"
    by (simp add: co_shortcut_build_option effective_short_alt CLEO_RESERVED_SHORTCUTS_def)
  from n s p h1 h2 show ?thesis by blast
qed

text \<open>Claim C7. An argument with a declared default is built as an optional CLI argument with
  that default, whatever its \<open>optional\<close> entry says.\<close>

theorem default_implies_optional:
  assumes "i < length (meta_args meta)"
    and "dict_get (arg_default (meta_args meta ! i)) = Some d"
  shows "length (arguments meta) = length (meta_args meta)
         \<and> ca_name (arguments meta ! i) = arg_name (meta_args meta ! i)
         \<and> ca_optional (arguments meta ! i)
         \<and> ca_default (arguments meta ! i) = Some d"
  using assms by (simp add: arguments_def build_argument_def Let_def)

text \<open>An argument \<open>mode\<close> with \<open>optional = False\<close> and default \<open>fast\<close>.\<close>

theorem default_implies_optional_witness:
  "length (arguments \<lparr>meta_description = None,
       meta_args = [\<lparr>arg_name = ''file'', arg_description = None, arg_optional = None,
                      arg_default = None\<rparr>,
                    \<lparr>arg_name = ''mode'', arg_description = Some ''Mode'',
                      arg_optional = Some False, arg_default = Some (Some ''fast'')\<rparr>],
       meta_options = []\<rparr>) = 2
   \<and> ca_name (arguments \<lparr>meta_description = None,
       meta_args = [\<lparr>arg_name = ''file'', arg_description = None, arg_optional = None,
                      arg_default = None\<rparr>,
                    \<lparr>arg_name = ''mode'', arg_description = Some ''Mode'',
                      arg_optional = Some False, arg_default = Some (Some ''fast'')\<rparr>],
       meta_options = []\<rparr> ! 1) = ''mode''
   \<and> ca_optional (arguments \<lparr>meta_description = None,
       meta_args = [\<lparr>arg_name = ''file'', arg_description = None, arg_optional = None,
                      arg_default = None\<rparr>,
                    \<lparr>arg_name = ''mode'', arg_description = Some ''Mode'',
                      arg_optional = Some False, arg_default = Some (Some ''fast'')\<rparr>],
       meta_options = []\<rparr> ! 1)
   \<and> ca_default (arguments \<lparr>meta_description = None,
       meta_args = [\<lparr>arg_name = ''file'', arg_description = None, arg_optional = None,
                      arg_default = None\<rparr>,
                    \<lparr>arg_name = ''mode'', arg_description = Some ''Mode'',
                      arg_optional = Some False, arg_default = Some (Some ''fast'')\<rparr>],
       meta_options = []\<rparr> ! 1) = Some ''fast''"
  using default_implies_optional [of 1 "\<lparr>meta_description = None,
       meta_args = [\<lparr>arg_name = ''file'', arg_description = None, arg_optional = None,
                      arg_default = None\<rparr>,
                    \<lparr>arg_name = ''mode'', arg_description = Some ''Mode'',
                      arg_optional = Some False, arg_default = Some (Some ''fast'')\<rparr>],
       meta_options = []\<rparr>" "''fast''"]
  by (simp add: dict_get_def)

lemma collect_script_args_filter:
  "collect_script_args argument args =
     map py_str (filter truthy (map (\<lambda>a. argument (arg_name a)) args))"
  by (induction args) (simp_all add: Let_def)

lemma collect_script_args_append:
  "collect_script_args argument (xs @ ys) =
     collect_script_args argument xs @ collect_script_args argument ys"
  by (simp add: collect_script_args_filter)

lemma collect_script_args_length: "length (collect_script_args argument args) \<le> length args"
  by (simp add: collect_script_args_filter)

lemma collect_script_args_shorter:
  assumes "i < length args" and "\<not> truthy (argument (arg_name (args ! i)))"
  shows "length (collect_script_args argument args) < length args"
proof -
  have "collect_script_args argument (take i args @ (args ! i) # drop (Suc i) args) =
      collect_script_args argument (take i args) @ collect_script_args argument (drop (Suc i) args)"
    using assms(2) by (simp add: collect_script_args_append)
  then have "collect_script_args argument args =
      collect_script_args argument (take i args) @ collect_script_args argument (drop (Suc i) args)"
    using assms(1) by (simp add: id_take_nth_drop [symmetric])
  moreover have "length (collect_script_args argument (take i args)) \<le> i"
    using collect_script_args_length [of argument "take i args"] assms(1) by simp
  moreover have "length (collect_script_args argument (drop (Suc i) args)) \<le> length args - Suc i"
    using collect_script_args_length [of argument "drop (Suc i) args"] by simp
  ultimately show ?thesis using assms(1) by simp
qed

text \<open>Claim C10. The positional arguments of the child process are the string forms of the
  truthy values, in declaration order; when an earlier argument is falsy and the argument
  at declaration index \<open>j\<close> is truthy, its value is passed at an index smaller than \<open>j\<close>.\<close>

theorem falsy_arguments_omitted:
  "collect_script_args argument args =
     map py_str (filter truthy (map (\<lambda>a. argument (arg_name a)) args))
   \<and> (i < j \<and> j < length args \<and> \<not> truthy (argument (arg_name (args ! i)))
        \<and> truthy (argument (arg_name (args ! j)))
      \<longrightarrow> length (collect_script_args argument (take j args)) < j
          \<and> collect_script_args argument args
               ! length (collect_script_args argument (take j args))
             = py_str (argument (arg_name (args ! j))))"
proof (intro conjI impI)
  show "collect_script_args argument args =
     map py_str (filter truthy (map (\<lambda>a. argument (arg_name a)) args))"
    by (rule collect_script_args_filter)
next
  assume h: "i < j \<and> j < length args \<and> \<not> truthy (argument (arg_name (args ! i)))
        \<and> truthy (argument (arg_name (args ! j)))"
  have "i < length (take j args)" using h by simp
  moreover have "\<not> truthy (argument (arg_name (take j args ! i)))" using h by simp
  ultimately have "length (collect_script_args argument (take j args)) < length (take j args)"
    by (rule collect_script_args_shorter)
  then show "length (collect_script_args argument (take j args)) < j" using h by simp
next
  assume h: "i < j \<and> j < length args \<and> \<not> truthy (argument (arg_name (args ! i)))
        \<and> truthy (argument (arg_name (args ! j)))"
  have "collect_script_args argument (take j args @ (args ! j) # drop (Suc j) args) =
      collect_script_args argument (take j args)
        @ py_str (argument (arg_name (args ! j))) # collect_script_args argument (drop (Suc j) args)"
    using h by (simp add: collect_script_args_append)
  then have "collect_script_args argument args =
      collect_script_args argument (take j args)
        @ py_str (argument (arg_name (args ! j))) # collect_script_args argument (drop (Suc j) args)"
    using h by (simp add: id_take_nth_drop [symmetric])
  then show "collect_script_args argument args
               ! length (collect_script_args argument (take j args))
             = py_str (argument (arg_name (args ! j)))"
    by simp
qed

text \<open>The first argument is absent, the second is \<open>out.txt\<close>: it is passed first.\<close>

theorem falsy_arguments_omitted_witness:
  "collect_script_args (\<lambda>n. if n = ''src'' then PyNone else PyStr ''out.txt'')
      [\<lparr>arg_name = ''src'', arg_description = None, arg_optional = Some True, arg_default = None\<rparr>,
       \<lparr>arg_name = ''dst'', arg_description = None, arg_optional = Some True, arg_default = None\<rparr>]
     = [''out.txt'']
   \<and> length (collect_script_args (\<lambda>n. if n = ''src'' then PyNone else PyStr ''out.txt'')
      (take 1 [\<lparr>arg_name = ''src'', arg_description = None, arg_optional = Some True, arg_default = None\<rparr>,
       \<lparr>arg_name = ''dst'', arg_description = None, arg_optional = Some True, arg_default = None\<rparr>])) = 0
   \<and> collect_script_args (\<lambda>n. if n = ''src'' then PyNone else PyStr ''out.txt'')
      [\<lparr>arg_name = ''src'', arg_description = None, arg_optional = Some True, arg_default = None\<rparr>,
       \<lparr>arg_name = ''dst'', arg_description = None, arg_optional = Some True, arg_default = None\<rparr>] ! 0
     = ''out.txt''"
  using falsy_arguments_omitted [of "\<lambda>n. if n = ''src'' then PyNone else PyStr ''out.txt''"
      "[\<lparr>arg_name = ''src'', arg_description = None, arg_optional = Some True, arg_default = None\<rparr>,
       \<lparr>arg_name = ''dst'', arg_description = None, arg_optional = Some True, arg_default = None\<rparr>]"
      0 1]
  by simp

text \<open>Claim C1. For the value option \<open>env\<close> with default \<open>dev\<close> the claim asks for the line
  \<open>ENV=${ENV:-${CLI_ENV:-dev}}\<close>. The f-string of the source puts a dollar sign in front
  of the inner variable name: the generated line is \<open>ENV=${$ENV:-${CLI_ENV:-dev}}\<close>, and
  \<open>ENV=${$ENV:-${CLI_ENV}}\<close> without a default.\<close>

theorem value_option_line_text:
  "option_line \<lparr>opt_name = ''env'', opt_description = None, opt_short = None,
       opt_flag = Some False, opt_default = Some ''dev''\<rparr>
     = ''ENV=${$ENV:-${CLI_ENV:-dev}}'' @ NL
   \<and> option_line \<lparr>opt_name = ''env'', opt_description = None, opt_short = None,
       opt_flag = Some False, opt_default = Some ''dev''\<rparr>
     \<noteq> ''ENV=${ENV:-${CLI_ENV:-dev}}'' @ NL
   \<and> option_line \<lparr>opt_name = ''env'', opt_description = None, opt_short = None,
       opt_flag = Some False, opt_default = None\<rparr>
     = ''ENV=${$ENV:-${CLI_ENV}}'' @ NL"
  by (simp add: option_line_def var_name_of_def upper_def upper_char_def upper_table_def
      replace_hyphen_def get_or_def NL_def)

lemma option_line_value_shape:
  "\<not> get_or (opt_flag opt) False \<Longrightarrow>
     \<exists>rest. option_line opt = var_name_of (opt_name opt) @ ''=${$'' @ rest"
  by (simp add: option_line_def Let_def)

text \<open>The binding line of an argument for the three states of its \<open>default\<close> entry: a
  missing key gives the empty default, a key that holds \<open>None\<close> is printed as \<open>None\<close>.\<close>

lemma arg_line_default_entries:
  "arg_line 1 \<lparr>arg_name = ''file'', arg_description = None, arg_optional = None,
       arg_default = None\<rparr> = ''FILE=${1:-}'' @ NL
   \<and> arg_line 1 \<lparr>arg_name = ''file'', arg_description = None, arg_optional = None,
       arg_default = Some None\<rparr> = ''FILE=${1:-None}'' @ NL
   \<and> arg_line 2 \<lparr>arg_name = ''out-dir'', arg_description = None, arg_optional = None,
       arg_default = Some (Some ''build'')\<rparr> = ''OUT_DIR=${2:-build}'' @ NL"
  by code_simp

section \<open>Parser, process and transformation\<close>

text \<open>Claim C3. For a script with the line \<open># @option debug [flag]: Enable debug output\<close> the
  claim asks for the binding line \<open>DEBUG=${CLI_DEBUG:-0}\<close>. The name group of the option
  pattern runs over the bracket: the parsed option is named \<open>debug [flag]\<close> and is not a
  flag, and the block binds \<open>DEBUG [FLAG]\<close> as a value option.\<close>

theorem flag_option_without_shortcut:
  "parse_script_metadata
      [''#!/bin/bash'', ''# @option debug [flag]: Enable debug output'', ''echo run'']
     = \<lparr>meta_description = None, meta_args = [],
         meta_options = [\<lparr>opt_name = ''debug [flag]'',
           opt_description = Some ''Enable debug output'', opt_short = None,
           opt_flag = Some False, opt_default = None\<rparr>]\<rparr>
   \<and> runner_block (parse_script_metadata
      [''#!/bin/bash'', ''# @option debug [flag]: Enable debug output'', ''echo run''])
     = SCRIPT_RUNNER_START @ NL
         @ ''DEBUG [FLAG]=${$DEBUG [FLAG]:-${CLI_DEBUG [FLAG]}}'' @ NL
         @ SCRIPT_RUNNER_END @ NL @ NL
   \<and> \<not> py_in (''DEBUG=${CLI_DEBUG:-0}'' @ NL) (runner_block (parse_script_metadata
      [''#!/bin/bash'', ''# @option debug [flag]: Enable debug output'', ''echo run'']))"
  by code_simp

lemma match_option_tail_colon:
  "match_option_tail (CHR '':'' # text) \<noteq> None"
  by (simp add: match_option_tail_def match_mods_final_def match_modifiers_def match_final_def
      isspace_def)

lemma try_name_succeeds:
  assumes "match_option_tail (drop k r) \<noteq> None" and "0 < k" and "k \<le> n"
  shows "\<exists>j short modifiers d. k \<le> j \<and> j \<le> n \<and> try_name r n = Some (take j r, short, modifiers, d)"
  using assms(3)
proof (induction n)
  case 0 with assms(2) show ?case by simp
next
  case (Suc n)
  show ?case
  proof (cases "match_option_tail (drop (Suc n) r)")
    case (Some g)
    obtain short modifiers d where "g = (short, modifiers, d)" by (cases g)
    with Some have "try_name r (Suc n) = Some (take (Suc n) r, short, modifiers, d)" by simp
    with Suc.prems show ?thesis by blast
  next
    case None
    with assms(1) have "k \<noteq> Suc n" by auto
    with Suc.prems have "k \<le> n" by simp
    then obtain j short modifiers d where
        "k \<le> j" "j \<le> n" "try_name r n = Some (take j r, short, modifiers, d)"
      using Suc.IH by blast
    with None show ?thesis by (intro exI [of _ j]) simp
  qed
qed

lemma strip_keeps_prefix:
  assumes "p \<noteq> []" and "\<not> isspace (hd p)" and "\<not> isspace (last p)"
  shows "prefix p (strip (p @ x))"
proof -
  obtain c p' where p: "p = c # p'" using assms(1) by (cases p) auto
  have l: "dropWhile isspace (p @ x) = p @ x" using assms(2) p by simp
  have "\<exists>y. dropWhile isspace (rev x @ rev p) = y @ rev p"
  proof (induction "rev x" arbitrary: x)
    case Nil
    then have "dropWhile isspace (rev p) = rev p"
      using assms(1,3) by (cases "rev p") (auto simp: hd_rev)
    with Nil show ?case by (intro exI [of _ "[]"]) simp
  next
    case (Cons a ys)
    then obtain x' where x': "ys = rev x'" by (metis rev_rev_ident)
    show ?case
    proof (cases "isspace a")
      case True
      have "dropWhile isspace (rev x @ rev p) = dropWhile isspace (rev x' @ rev p)"
        using Cons(2) [symmetric] True x' by simp
      with Cons(1) [OF x'] show ?thesis by simp
    next
      case False
      with Cons(2) [symmetric] show ?thesis by (intro exI [of _ "rev x"]) simp
    qed
  qed
  then obtain y where "dropWhile isspace (rev (p @ x)) = y @ rev p" by auto
  then show ?thesis by (simp add: strip_def l)
qed

text \<open>Whatever description follows the colon, the name parsed from
  \<open># @option debug [flag]: ...\<close> begins with \<open>debug [flag]\<close>: the name group is tried
  with its longest extent first and the pattern matches as soon as the name group ends
  before the colon.\<close>

lemma flag_without_shortcut_never_parsed:
  "\<exists>opt. parse_option_line (''# @option debug [flag]:'' @ text) = Some opt
      \<and> prefix ''debug [flag]'' (opt_name opt)"
proof -
  define r where "r = ''debug [flag]:'' @ text"
  define n where "n = length (takeWhile (\<lambda>x. x \<noteq> CHR '','') r)"
  have n: "12 \<le> n" by (simp add: n_def r_def)
  have "match_option_tail (drop 12 r) \<noteq> None"
    by (simp add: r_def match_option_tail_colon)
  then obtain j short modifiers d where
      j: "12 \<le> j" "try_name r n = Some (take j r, short, modifiers, d)"
    using try_name_succeeds [of 12 r n] n by auto
  have m: "match_option (''# @option debug [flag]:'' @ text) = Some (take j r, short, modifiers, d)"
    using j(2) by (simp add: match_option_def r_def n_def)
  have "take j (''debug [flag]'' @ ('':'' @ text))
      = take j ''debug [flag]'' @ take (j - length ''debug [flag]'') ('':'' @ text)"
    by (rule take_append)
  moreover have "take j ''debug [flag]'' = ''debug [flag]''" using j(1) by simp
  ultimately have "take j r = ''debug [flag]'' @ take (j - length ''debug [flag]'') ('':'' @ text)"
    by (simp add: r_def)
  then have "prefix ''debug [flag]'' (strip (take j r))"
    using strip_keeps_prefix [of "''debug [flag]''" "take (j - length ''debug [flag]'') ('':'' @ text)"]
    by (simp add: isspace_def)
  then have "prefix ''debug [flag]'' (opt_name (make_opt_info (take j r, short, modifiers, d)))"
    by (auto simp: make_opt_info_def Let_def split: option.splits)
  with m show ?thesis by (simp add: parse_option_line_def)
qed

lemma py_in_nonempty: "py_in pat m \<Longrightarrow> pat \<noteq> [] \<Longrightarrow> m \<noteq> []"
  by (cases m) auto

text \<open>Claim C8. For a declaration whose modifier text contains both \<open>flag\<close> and
  \<open>default=\<close> the claim asks for a flag without default. For the declaration
  \<open># @option level [flag default=3]: Verbosity level\<close>, written without a shortcut, the
  name group of the pattern takes the bracket as well: the pattern captures no modifier
  text, and the parsed option is the value option \<open>level [flag default=3]\<close>.\<close>

theorem flag_and_default_without_shortcut:
  "parse_option_line ''# @option level [flag default=3]: Verbosity level''
     = Some \<lparr>opt_name = ''level [flag default=3]'',
         opt_description = Some ''Verbosity level'', opt_short = None,
         opt_flag = Some False, opt_default = None\<rparr>"
  by code_simp

text \<open>Where the pattern does capture the modifier text (a comma, such as the one in front of
  a shortcut, keeps the name group from running on), the check for \<open>flag\<close> comes first: a
  modifier text that contains both \<open>flag\<close> and \<open>default=\<close> gives a flag without default.\<close>

lemma flag_checked_before_default:
  assumes "match_option line = Some (name, short, Some m, desc)"
    and "py_in ''flag'' m" and "py_in ''default='' m"
  shows "\<exists>opt. parse_option_line line = Some opt \<and> opt_name opt = strip name
           \<and> opt_flag opt = Some True \<and> opt_default opt = None"
proof -
  have "m \<noteq> []" using assms(2) by (rule py_in_nonempty) simp
  then show ?thesis
    using assms by (simp add: parse_option_line_def make_opt_info_def)
qed

lemma flag_checked_before_default_example:
  "parse_option_line ''# @option level,l [flag default=3]: Verbosity level''
     = Some \<lparr>opt_name = ''level'', opt_description = Some ''Verbosity level'',
         opt_short = Some ''l'', opt_flag = Some True, opt_default = None\<rparr>"
  by code_simp

text \<open>Claim C5. Once the temporary script has been created, it does not exist in the file system
  that \<open>handle\<close> leaves behind, whatever the child process did and whether it exited or
  could not be launched.\<close>

theorem temp_script_removed:
  assumes "create_temp_script h meta script_path fs = Inr (temp_script, fs1)"
  shows "temp_script \<notin> dom (snd (handle h meta script_path fs))"
  using assms
  by (simp add: handle_def cleanup_def Let_def split: prod.splits run_result.splits)

text \<open>Claim C9. When the child process exits with a code, \<open>handle\<close> returns that code.\<close>

theorem handle_returns_exit_code:
  assumes "create_temp_script h meta script_path fs = Inr (temp_script, fs1)"
    and "h_run h ([''bash'', temp_script] @ collect_script_args (h_argument h) (meta_args meta))
           (prepare_env (h_option h) (meta_options meta) (h_environ h)) fs1 = (Exited code, fs2)"
  shows "fst (handle h meta script_path fs) = Inr code"
  using assms by (simp add: handle_def Let_def)

lemma handle_script_missing:
  "fs script_path = None \<Longrightarrow> handle h meta script_path fs = (Inl FileNotFound, fs)"
  by (simp add: handle_def create_temp_script_def)

text \<open>A host whose child process cannot be launched.\<close>

theorem temp_script_removed_witness:
  "''/tmp/script_runner_1.sh''
     \<notin> dom (snd (handle failing_host demo_meta ''hello.sh'' [''hello.sh'' \<mapsto> ''echo hi'']))"
proof -
  have "create_temp_script failing_host demo_meta ''hello.sh'' [''hello.sh'' \<mapsto> ''echo hi'']
      = Inr (''/tmp/script_runner_1.sh'',
          [''hello.sh'' \<mapsto> ''echo hi'',
           ''/tmp/script_runner_1.sh'' \<mapsto> transform_script demo_meta ''echo hi''])"
    by (simp add: create_temp_script_def failing_host_def Let_def)
  then show ?thesis by (rule temp_script_removed)
qed

text \<open>A host whose child process exits with code 3.\<close>

theorem handle_returns_exit_code_witness:
  "fst (handle exiting_host demo_meta ''hello.sh'' [''hello.sh'' \<mapsto> ''echo hi'']) = Inr 3"
proof -
  have c: "create_temp_script exiting_host demo_meta ''hello.sh'' [''hello.sh'' \<mapsto> ''echo hi'']
      = Inr (''/tmp/script_runner_1.sh'',
          [''hello.sh'' \<mapsto> ''echo hi'',
           ''/tmp/script_runner_1.sh'' \<mapsto> transform_script demo_meta ''echo hi''])"
    by (simp add: create_temp_script_def exiting_host_def Let_def)
  have r: "h_run exiting_host
      ([''bash'', ''/tmp/script_runner_1.sh'']
         @ collect_script_args (h_argument exiting_host) (meta_args demo_meta))
      (prepare_env (h_option exiting_host) (meta_options demo_meta) (h_environ exiting_host))
      [''hello.sh'' \<mapsto> ''echo hi'',
       ''/tmp/script_runner_1.sh'' \<mapsto> transform_script demo_meta ''echo hi'']
      = (Exited 3, [''hello.sh'' \<mapsto> ''echo hi'',
          ''/tmp/script_runner_1.sh'' \<mapsto> transform_script demo_meta ''echo hi''])"
    by (simp add: exiting_host_def)
  show ?thesis by (rule handle_returns_exit_code [OF c r])
qed

text \<open>Claim C6. A script in which the user setting marker occurs a second time (in the
  line that closes the section): only the text between the first and the second marker is
  carried over; the rest of the closing line and the command \<open>echo $A\<close> behind it are
  missing from the output.\<close>

theorem second_user_setting_dropped:
  "transform_script \<lparr>meta_description = None, meta_args = [], meta_options = []\<rparr>
      (''# USER SETTING'' @ NL @ ''A=1'' @ NL @ ''# USER SETTING END'' @ NL @ ''echo $A'' @ NL)
     = ''# USER SETTING'' @ NL @ NL @ ''# <SCRIPT-RUNNER>'' @ NL @ ''# </SCRIPT-RUNNER>'' @ NL @ NL
         @ ''A=1'' @ NL
   \<and> \<not> py_in ''echo $A''
      (transform_script \<lparr>meta_description = None, meta_args = [], meta_options = []\<rparr>
        (''# USER SETTING'' @ NL @ ''A=1'' @ NL @ ''# USER SETTING END'' @ NL @ ''echo $A'' @ NL))"
  by code_simp


section \<open>Transforming a transformed script\<close>

lemma py_in_sublist: "py_in pat s \<longleftrightarrow> sublist pat s"
  by (induction s) (simp_all add: sublist_Cons_right)

lemma occurrences_zero: "occurrences pat s = 0 \<longleftrightarrow> \<not> py_in pat s"
  by (induction s) auto

lemma occurrences_Nil: "pat \<noteq> [] \<Longrightarrow> occurrences pat [] = 0"
  by simp

lemma straddle_free_Cons: "straddle_free pat (c # x) y \<Longrightarrow> straddle_free pat x y"
  by (auto simp: straddle_free_def suffix_Cons)

lemma occurrences_append:
  "pat \<noteq> [] \<Longrightarrow> straddle_free pat x y \<Longrightarrow>
     occurrences pat (x @ y) = occurrences pat x + occurrences pat y"
proof (induction x)
  case Nil
  then show ?case by simp
next
  case (Cons c x)
  have "prefix pat ((c # x) @ y) \<longleftrightarrow> prefix pat (c # x)"
    using Cons.prems(2) [unfolded straddle_free_def, rule_format, of "c # x"] by simp
  moreover have "occurrences pat (x @ y) = occurrences pat x + occurrences pat y"
    using Cons by (blast dest: straddle_free_Cons)
  ultimately show ?case by simp
qed

lemma straddle_free_last:
  assumes "x \<noteq> []" and "last x \<notin> set pat"
  shows "straddle_free pat x y"
  unfolding straddle_free_def
proof (intro allI impI)
  fix t assume t: "t \<noteq> [] \<and> suffix t x"
  then have l: "last t = last x" by (auto simp: suffix_def)
  show "prefix pat (t @ y) \<longleftrightarrow> prefix pat t"
  proof
    assume "prefix pat (t @ y)"
    then consider "prefix pat t" | z where "pat = t @ z"
      by (auto simp: prefix_append)
    then show "prefix pat t"
    proof cases
      case 1 then show ?thesis .
    next
      case 2
      then have "last t \<in> set pat" using t by simp
      with l assms(2) show ?thesis by simp
    qed
  next
    assume "prefix pat t" then show "prefix pat (t @ y)" by (simp add: prefix_append)
  qed
qed

lemma straddle_free_hd:
  assumes "h \<notin> set (tl pat)"
  shows "straddle_free pat x (h # y)"
  unfolding straddle_free_def
proof (intro allI impI)
  fix t assume t: "t \<noteq> [] \<and> suffix t x"
  show "prefix pat (t @ h # y) \<longleftrightarrow> prefix pat t"
  proof
    assume "prefix pat (t @ h # y)"
    then obtain z where "prefix pat t \<or> (pat = t @ z \<and> prefix z (h # y))"
      by (auto simp: prefix_append)
    then consider "prefix pat t" | z where "pat = t @ z" "prefix z (h # y)" "z \<noteq> []"
      by (cases "z = []") auto
    then show "prefix pat t"
    proof cases
      case 1 then show ?thesis .
    next
      case 2
      then obtain z' where "z = h # z'" by (cases z) auto
      with 2 t have "h \<in> set (tl pat)" by (cases t) auto
      with assms show ?thesis by simp
    qed
  next
    assume "prefix pat t" then show "prefix pat (t @ h # y)" by (simp add: prefix_append)
  qed
qed

lemma straddle_free_Nil [simp]: "straddle_free pat x []" "straddle_free pat [] y"
  by (simp_all add: straddle_free_def)

lemma sublist_newline:
  assumes "CHR 0x0A \<notin> set pat"
  shows "sublist pat (x @ CHR 0x0A # y) \<longleftrightarrow> sublist pat x \<or> sublist pat y"
proof
  assume "sublist pat (x @ CHR 0x0A # y)"
  then consider "sublist pat x" | "sublist pat (CHR 0x0A # y)"
    | a b where "pat = a @ b" "suffix a x" "prefix b (CHR 0x0A # y)"
    by (auto simp: sublist_append)
  then show "sublist pat x \<or> sublist pat y"
  proof cases
    case 1 then show ?thesis by simp
  next
    case 2
    then have "prefix pat (CHR 0x0A # y) \<or> sublist pat y" by (simp add: sublist_Cons_right)
    moreover have "pat = []" if "prefix pat (CHR 0x0A # y)"
      using that assms by (cases pat) auto
    ultimately show ?thesis by auto
  next
    case 3
    have "b = []" using 3(3) 3(1) assms by (cases b) auto
    with 3 have "suffix pat x" by simp
    then show ?thesis by auto
  qed
next
  assume "sublist pat x \<or> sublist pat y"
  then show "sublist pat (x @ CHR 0x0A # y)"
    by (auto simp: sublist_append sublist_Cons_right)
qed

lemma find_split_Some: "find_split sep s = Some (b, a) \<Longrightarrow> s = b @ sep @ a"
proof (induction s arbitrary: b)
  case Nil then show ?case by simp
next
  case (Cons c cs)
  show ?case
  proof (cases "prefix sep (c # cs)")
    case True
    then have "take (length sep) (c # cs) = sep" by (metis append_eq_conv_conj prefix_def)
    then have "sep @ drop (length sep) (c # cs) = c # cs" by (metis append_take_drop_id)
    moreover have "b = []" "a = drop (length sep) (c # cs)" using True Cons.prems by auto
    ultimately show ?thesis by simp
  next
    case False
    with Cons.prems obtain b' where "find_split sep cs = Some (b', a)" and "b = c # b'"
      by auto
    with Cons.IH [of b'] show ?thesis by simp
  qed
qed

lemma find_split_None: "sep \<noteq> [] \<Longrightarrow> find_split sep s = None \<longleftrightarrow> \<not> py_in sep s"
  by (induction s) auto

lemma py_split_hd_rest:
  "\<exists>r rest x. py_split sep s = r # rest \<and> s = r @ x \<and> (x = [] \<or> prefix sep x)"
proof (cases "sep = []")
  case True then show ?thesis by (simp add: py_split.simps)
next
  case False
  show ?thesis
  proof (cases "find_split sep s")
    case None with False show ?thesis by (simp add: py_split.simps)
  next
    case (Some p)
    obtain b a where p: "p = (b, a)" by (cases p)
    with Some have "s = b @ sep @ a" by (simp add: find_split_Some)
    moreover have "py_split sep s = b # py_split sep a"
      using Some p False by (simp add: py_split.simps [of sep s])
    ultimately show ?thesis by auto
  qed
qed

lemma py_split_marker_rest:
  assumes "sep \<noteq> []" and "py_in sep s"
  shows "\<exists>p0 p1 rest x. py_split sep s = p0 # p1 # rest \<and> s = p0 @ sep @ p1 @ x
           \<and> (x = [] \<or> prefix sep x)"
proof -
  from assms obtain p where f: "find_split sep s = Some p"
    using find_split_None [of sep s] by auto
  obtain b a where p: "p = (b, a)" by (cases p)
  with f have s: "s = b @ sep @ a" by (simp add: find_split_Some)
  obtain r rest x where r: "py_split sep a = r # rest" "a = r @ x" "x = [] \<or> prefix sep x"
    using py_split_hd_rest by blast
  have "py_split sep s = b # r # rest"
    using f p r(1) assms(1) by (simp add: py_split.simps [of sep s])
  with s r(2,3) show ?thesis by auto
qed

lemma join_nl_Cons: "rest \<noteq> [] \<Longrightarrow> join_nl (x # rest) = x @ NL @ join_nl rest"
  by (cases rest) simp_all

lemma py_split_nonempty: "py_split sep s \<noteq> []"
  using py_split_hd_rest [of sep s] by auto

lemma join_py_split: "join_nl (py_split NL s) = s"
proof (induction NL s rule: py_split.induct)
  case (1 s)
  have ne: "NL \<noteq> []" by (simp add: NL_def)
  show ?case
  proof (cases "find_split NL s")
    case None then show ?thesis using ne by (simp add: py_split.simps [of NL s])
  next
    case (Some p)
    obtain b a where p: "p = (b, a)" by (cases p)
    have "join_nl (py_split NL a) = a" using "1" [OF ne Some p [symmetric]] by simp
    moreover have "s = b @ NL @ a" using Some p by (simp add: find_split_Some)
    moreover have "py_split NL s = b # py_split NL a"
      using Some p ne by (simp add: py_split.simps [of NL s])
    ultimately show ?thesis by (simp add: join_nl_Cons py_split_nonempty)
  qed
qed

lemma join_nl_append:
  "xs \<noteq> [] \<Longrightarrow> ys \<noteq> [] \<Longrightarrow> join_nl (xs @ ys) = join_nl xs @ NL @ join_nl ys"
proof (induction xs)
  case Nil then show ?case by simp
next
  case (Cons x xs)
  show ?case
  proof (cases "xs = []")
    case True with Cons.prems show ?thesis by (simp add: join_nl_Cons)
  next
    case False
    with Cons show ?thesis by (simp add: join_nl_Cons)
  qed
qed

lemma find_insert_idx_bound:
  "find_insert_idx i ls = 0 \<or> find_insert_idx i ls < i + length ls"
proof (induction ls arbitrary: i)
  case Nil then show ?case by simp
next
  case (Cons l ls)
  have "find_insert_idx (Suc i) ls = 0 \<or> find_insert_idx (Suc i) ls < Suc i + length ls"
    by (rule Cons.IH)
  then show ?case by (cases i) auto
qed

lemma join_take_drop:
  "join_nl (take k ls) = [] \<and> k = 0 \<and> join_nl (drop k ls) = join_nl ls
   \<or> 0 < k \<and> k < length ls \<and> join_nl (take k ls) @ NL @ join_nl (drop k ls) = join_nl ls
   \<or> length ls \<le> k"
proof (cases "k = 0 \<or> length ls \<le> k")
  case True then show ?thesis by auto
next
  case False
  then have "take k ls \<noteq> []" "drop k ls \<noteq> []" by auto
  then have "join_nl (take k ls @ drop k ls) = join_nl (take k ls) @ NL @ join_nl (drop k ls)"
    by (rule join_nl_append)
  with False show ?thesis by simp
qed

lemma USER_SETTING_nonempty: "USER_SETTING \<noteq> []"
  by (simp add: USER_SETTING_def)

lemma occurrences_append_ge: "occurrences pat v \<le> occurrences pat (u @ v)"
  by (induction u) simp_all

lemma occurrences_twice:
  assumes "pat \<noteq> []"
  shows "2 \<le> occurrences pat (a @ pat @ b @ pat @ d)"
proof -
  obtain c p' where p: "pat = c # p'" using assms by (cases pat) auto
  have "1 \<le> occurrences pat (pat @ d)" by (simp add: p)
  also have "\<dots> \<le> occurrences pat ((p' @ b) @ pat @ d)" by (rule occurrences_append_ge)
  finally have "2 \<le> occurrences pat (pat @ b @ pat @ d)" by (simp add: p)
  also have "\<dots> \<le> occurrences pat (a @ pat @ b @ pat @ d)" by (rule occurrences_append_ge)
  finally show ?thesis .
qed

lemma block_frameI:
  assumes "r = p @ n @ B @ q" and "c = p @ q @ x" and "n = NL \<or> n = NL @ NL"
    and "x = [] \<or> 2 \<le> occurrences USER_SETTING c"
  shows "\<exists>p q x n. c = p @ q @ x \<and> r = p @ n @ B @ q
     \<and> (p = [] \<and> n = [] \<or> n = NL \<or> n = NL @ NL)
     \<and> (x = [] \<or> 2 \<le> occurrences USER_SETTING c)"
  using assms by blast

lemma insert_runner_block_frame:
  "\<exists>p q x n. c = p @ q @ x \<and> insert_runner_block B c = p @ n @ B @ q
     \<and> (p = [] \<and> n = [] \<or> n = NL \<or> n = NL @ NL)
     \<and> (x = [] \<or> 2 \<le> occurrences USER_SETTING c)"
proof (cases "py_in USER_SETTING c")
  case True
  then obtain p0 p1 rest x where
      sp: "py_split USER_SETTING c = p0 # p1 # rest" and c: "c = p0 @ USER_SETTING @ p1 @ x"
      and x: "x = [] \<or> prefix USER_SETTING x"
    using py_split_marker_rest [OF USER_SETTING_nonempty] by blast
  define lines where "lines = py_split NL p1"
  define k where "k = find_insert_idx 0 lines"
  define before where "before = join_nl (take k lines)"
  define after where "after = join_nl (drop k lines)"
  have j: "join_nl lines = p1" by (simp add: lines_def join_py_split)
  have out: "insert_runner_block B c = p0 @ USER_SETTING @ before @ NL @ NL @ B @ after"
    using True sp
    by (simp add: insert_runner_block_def Let_def lines_def k_def before_def after_def)
  have kb: "k = 0 \<or> k < length lines"
    using find_insert_idx_bound [of 0 lines] by (simp add: k_def)
  have x2: "x = [] \<or> 2 \<le> occurrences USER_SETTING c"
  proof (cases "x = []")
    case True then show ?thesis by simp
  next
    case False
    with x obtain d where "x = USER_SETTING @ d" by (auto simp: prefix_def)
    then have "c = p0 @ USER_SETTING @ p1 @ USER_SETTING @ d" using c by simp
    then show ?thesis using occurrences_twice [OF USER_SETTING_nonempty] by simp
  qed
  have "before = [] \<and> after = p1 \<or> before @ NL @ after = p1"
    using join_take_drop [of k lines] kb j by (auto simp: before_def after_def)
  then show ?thesis
  proof
    assume a: "before = [] \<and> after = p1"
    have o: "insert_runner_block B c = (p0 @ USER_SETTING) @ (NL @ NL) @ B @ p1"
      using out a by simp
    have e: "c = (p0 @ USER_SETTING) @ p1 @ x" using c by simp
    show ?thesis using block_frameI [OF o e _ x2] by blast
  next
    assume a: "before @ NL @ after = p1"
    have o: "insert_runner_block B c = (p0 @ USER_SETTING @ before @ NL) @ NL @ B @ after"
      using out by simp
    have e: "c = (p0 @ USER_SETTING @ before @ NL) @ after @ x" using c a by auto
    show ?thesis using block_frameI [OF o e _ x2] by blast
  qed
next
  case False
  define lines where "lines = py_split NL c"
  obtain l0 rest where l: "lines = l0 # rest"
    using py_split_nonempty [of NL c] by (cases lines) (auto simp: lines_def)
  have j: "join_nl lines = c" by (simp add: lines_def join_py_split)
  show ?thesis
  proof (cases "prefix ''#!'' l0")
    case True
    have out: "insert_runner_block B c = l0 @ NL @ NL @ B @ join_nl rest"
      using False True l by (simp add: insert_runner_block_def Let_def lines_def [symmetric])
    show ?thesis
    proof (cases "rest = []")
      case True
      have o: "insert_runner_block B c = l0 @ (NL @ NL) @ B @ []" using out True by simp
      have e: "c = l0 @ [] @ []" using j l True by simp
      show ?thesis using block_frameI [OF o e] by blast
    next
      case False
      have o: "insert_runner_block B c = (l0 @ NL) @ NL @ B @ join_nl rest" using out by simp
      have e: "c = (l0 @ NL) @ join_nl rest @ []" using j l False by (simp add: join_nl_Cons)
      show ?thesis using block_frameI [OF o e] by blast
    qed
  next
    case nb: False
    have "insert_runner_block B c = [] @ [] @ B @ c" "c = [] @ c @ []"
      using False nb l by (simp_all add: insert_runner_block_def Let_def lines_def [symmetric])
    then show ?thesis by blast
  qed
qed

text \<open>When the user setting marker occurs at most once, the transformation puts newlines
  and the block at one place of the text that the removal step leaves, and changes nothing
  else.\<close>

lemma transform_script_keeps_text:
  assumes "occurrences USER_SETTING (remove_runner_block s) \<le> 1"
  shows "\<exists>p q n. remove_runner_block s = p @ q
           \<and> transform_script meta s = p @ n @ runner_block meta @ q
           \<and> set n \<subseteq> {CHR 0x0A}"
proof -
  obtain p q x n where
      "remove_runner_block s = p @ q @ x"
      "insert_runner_block (runner_block meta) (remove_runner_block s)
         = p @ n @ runner_block meta @ q"
      "p = [] \<and> n = [] \<or> n = NL \<or> n = NL @ NL"
      "x = [] \<or> 2 \<le> occurrences USER_SETTING (remove_runner_block s)"
    using insert_runner_block_frame by blast
  moreover from this(4) assms have "x = []" by auto
  moreover have "set n \<subseteq> {CHR 0x0A}" using calculation(3) by (auto simp: NL_def)
  ultimately show ?thesis by (auto simp: transform_script_def)
qed

lemma remove_runner_block_clean:
  "\<not> sublist SCRIPT_RUNNER_START x \<Longrightarrow> remove_runner_block x = x"
  by (induction x) (simp_all add: remove_runner_block.simps(2) sublist_Cons_right)

lemma START_facts:
  "SCRIPT_RUNNER_START \<noteq> []" "CHR ''#'' \<notin> set (tl SCRIPT_RUNNER_START)"
  "CHR 0x0A \<notin> set SCRIPT_RUNNER_START" "hd SCRIPT_RUNNER_START = CHR ''#''"
  by (simp_all add: SCRIPT_RUNNER_START_def)

lemma END_facts:
  "SCRIPT_RUNNER_END \<noteq> []" "CHR ''#'' \<notin> set (tl SCRIPT_RUNNER_END)"
  "CHR 0x0A \<notin> set SCRIPT_RUNNER_END" "hd SCRIPT_RUNNER_END = CHR ''#''"
  "CHR ''#'' \<notin> set (tl (SCRIPT_RUNNER_END @ NL))"
  by (simp_all add: SCRIPT_RUNNER_END_def NL_def)

lemma prefix_straddle:
  "straddle_free pat x y \<Longrightarrow> x \<noteq> [] \<Longrightarrow> prefix pat (x @ y) \<Longrightarrow> prefix pat x"
  unfolding straddle_free_def by blast

lemma remove_runner_block_before_start:
  assumes "\<not> sublist SCRIPT_RUNNER_START P"
  shows "remove_runner_block (P @ SCRIPT_RUNNER_START @ rest)
           = P @ remove_runner_block (SCRIPT_RUNNER_START @ rest)"
  using assms
proof (induction P)
  case Nil then show ?case by simp
next
  case (Cons c P)
  obtain s' where s: "SCRIPT_RUNNER_START @ rest = CHR ''#'' # s'"
    by (simp add: SCRIPT_RUNNER_START_def)
  have "straddle_free SCRIPT_RUNNER_START (c # P) (SCRIPT_RUNNER_START @ rest)"
    unfolding s by (rule straddle_free_hd) (rule START_facts)
  then have "prefix SCRIPT_RUNNER_START (c # P)"
    if "prefix SCRIPT_RUNNER_START ((c # P) @ SCRIPT_RUNNER_START @ rest)"
    using that prefix_straddle by blast
  then have np: "\<not> prefix SCRIPT_RUNNER_START ((c # P) @ SCRIPT_RUNNER_START @ rest)"
    using Cons.prems by (auto simp: sublist_Cons_right)
  have "\<not> sublist SCRIPT_RUNNER_START P" using Cons.prems by (simp add: sublist_Cons_right)
  then have "remove_runner_block (P @ SCRIPT_RUNNER_START @ rest)
           = P @ remove_runner_block (SCRIPT_RUNNER_START @ rest)" by (rule Cons.IH)
  with np show ?case by (simp add: remove_runner_block.simps(2))
qed

lemma skip_past_first:
  assumes "pat \<noteq> []" and "\<not> sublist pat x" and "straddle_free pat x (pat @ z)"
  shows "skip_past pat (x @ pat @ z) = Some z"
  using assms(2,3)
proof (induction x)
  case Nil
  obtain c p' where "pat = c # p'" using assms(1) by (cases pat) auto
  then show ?case by simp
next
  case (Cons a x)
  have "\<not> prefix pat ((a # x) @ pat @ z)"
    using Cons.prems prefix_straddle [of pat "a # x" "pat @ z"]
    by (auto simp: sublist_Cons_right)
  moreover have "skip_past pat (x @ pat @ z) = Some z"
    using Cons by (auto simp: sublist_Cons_right dest: straddle_free_Cons)
  ultimately show ?case by simp
qed

lemma sublist_append_NL_left:
  "sublist (pat @ NL) x \<Longrightarrow> sublist pat x"
  by (metis sublist_order.order.trans sublist_append_rightI)

lemma remove_runner_block_at_start:
  assumes "skip_past (SCRIPT_RUNNER_END @ NL) y = Some z"
  shows "remove_runner_block (SCRIPT_RUNNER_START @ y) = remove_runner_block z"
proof -
  obtain s' where s: "SCRIPT_RUNNER_START = CHR ''#'' # s'"
    by (simp add: SCRIPT_RUNNER_START_def)
  have eq: "SCRIPT_RUNNER_START @ y = CHR ''#'' # (s' @ y)" by (simp add: s)
  have p: "prefix SCRIPT_RUNNER_START (CHR ''#'' # (s' @ y))"
    unfolding eq [symmetric] by simp
  have d: "drop (length SCRIPT_RUNNER_START) (CHR ''#'' # (s' @ y)) = y"
    unfolding eq [symmetric] by simp
  show ?thesis
    unfolding eq by (simp only: remove_runner_block.simps(2) p d assms if_True option.case)
qed

lemma remove_runner_block_block:
  assumes "\<not> sublist SCRIPT_RUNNER_END (binding_lines meta)"
  shows "remove_runner_block (runner_block meta @ Q) = remove_runner_block (NL @ Q)"
proof -
  define x where "x = NL @ binding_lines meta"
  define pat where "pat = SCRIPT_RUNNER_END @ NL"
  have e: "runner_block meta @ Q = SCRIPT_RUNNER_START @ (x @ pat @ (NL @ Q))"
    by (simp add: runner_block_def x_def pat_def)
  have nx: "\<not> sublist SCRIPT_RUNNER_END x"
    using assms sublist_newline [of SCRIPT_RUNNER_END "[]" "binding_lines meta"] END_facts(1,3)
    by (simp add: x_def NL_def)
  then have n: "\<not> sublist pat x" unfolding pat_def using sublist_append_NL_left by blast
  obtain p' where p: "pat @ (NL @ Q) = CHR ''#'' # p'"
    by (simp add: pat_def SCRIPT_RUNNER_END_def)
  have sf: "straddle_free pat x (pat @ (NL @ Q))"
    unfolding p by (rule straddle_free_hd) (simp add: pat_def END_facts(5))
  have "pat \<noteq> []" by (simp add: pat_def NL_def)
  then have sk: "skip_past pat (x @ pat @ (NL @ Q)) = Some (NL @ Q)"
    using n sf by (rule skip_past_first)
  have "remove_runner_block (SCRIPT_RUNNER_START @ (x @ pat @ (NL @ Q)))
      = remove_runner_block (NL @ Q)"
    using sk unfolding pat_def by (rule remove_runner_block_at_start)
  with e show ?thesis by simp
qed

lemma marker_free_newline:
  "marker_free (x @ NL @ y) \<longleftrightarrow> marker_free x \<and> marker_free y"
  using sublist_newline [OF START_facts(3)] sublist_newline [OF END_facts(3)]
  by (auto simp: marker_free_def NL_def)

lemma marker_free_Nil [simp]: "marker_free []"
  by (simp add: marker_free_def START_facts END_facts)

lemma marker_free_NL [simp]: "marker_free NL"
  using marker_free_newline [of "[]" "[]"] by simp

lemma marker_free_sublist: "marker_free c \<Longrightarrow> sublist x c \<Longrightarrow> marker_free x"
  unfolding marker_free_def by (meson sublist_order.order.trans)

lemma insert_runner_block_one_block:
  assumes "marker_free c"
  shows "one_block meta (insert_runner_block (runner_block meta) c)"
proof -
  obtain p q x n where c: "c = p @ q @ x"
    and o: "insert_runner_block (runner_block meta) c = (p @ n) @ runner_block meta @ q"
    and n: "p = [] \<and> n = [] \<or> n = NL \<or> n = NL @ NL"
    using insert_runner_block_frame [of c "runner_block meta"] by auto
  have "sublist p c" "sublist q c" unfolding c by simp_all
  then have f: "marker_free p" "marker_free q"
    using assms by (auto intro: marker_free_sublist)
  have "marker_free (p @ NL @ [])" "marker_free (p @ NL @ NL)"
    using f(1) by (simp_all only: marker_free_newline marker_free_Nil marker_free_NL)
  then have "marker_free (p @ n)" using n f(1) by auto
  moreover have "p @ n = [] \<or> last (p @ n) = CHR 0x0A" using n by (auto simp: NL_def)
  ultimately show ?thesis using o f(2) unfolding one_block_def by blast
qed

lemma remove_runner_block_one_block:
  assumes "\<not> sublist SCRIPT_RUNNER_END (binding_lines meta)"
    and "marker_free P" and "marker_free Q"
  shows "remove_runner_block (P @ runner_block meta @ Q) = P @ NL @ Q"
    and "marker_free (P @ NL @ Q)"
proof -
  show m: "marker_free (P @ NL @ Q)" using assms(2,3) by (simp add: marker_free_newline)
  have "marker_free ([] @ NL @ Q)" using assms(3) by (simp only: marker_free_newline marker_free_Nil)
  then have q: "\<not> sublist SCRIPT_RUNNER_START (NL @ Q)" by (simp add: marker_free_def)
  have "runner_block meta @ Q = SCRIPT_RUNNER_START @ (NL @ binding_lines meta @ SCRIPT_RUNNER_END @ NL @ NL @ Q)"
    by (simp add: runner_block_def)
  then have "remove_runner_block (P @ runner_block meta @ Q)
      = P @ remove_runner_block (runner_block meta @ Q)"
    using remove_runner_block_before_start [of P] assms(2) by (simp add: marker_free_def)
  also have "\<dots> = P @ remove_runner_block (NL @ Q)"
    using assms(1) by (simp add: remove_runner_block_block)
  also have "\<dots> = P @ NL @ Q" using q by (simp add: remove_runner_block_clean)
  finally show "remove_runner_block (P @ runner_block meta @ Q) = P @ NL @ Q" .
qed

lemma transform_script_initial:
  "marker_free s \<Longrightarrow> one_block meta (transform_script meta s)"
  by (simp add: transform_script_def remove_runner_block_clean marker_free_def [of s]
      insert_runner_block_one_block)

lemma transform_script_step:
  assumes "\<not> sublist SCRIPT_RUNNER_END (binding_lines meta)" and "one_block meta x"
  shows "one_block meta (transform_script meta x)"
proof -
  from assms(2) obtain P Q where x: "x = P @ runner_block meta @ Q"
    and f: "marker_free P" "marker_free Q"
    unfolding one_block_def by blast
  have "remove_runner_block x = P @ NL @ Q" "marker_free (P @ NL @ Q)"
    unfolding x using assms(1) f by (rule remove_runner_block_one_block)+
  then show ?thesis by (simp add: transform_script_def insert_runner_block_one_block)
qed

lemma occurrences_clean: "\<not> sublist pat x \<Longrightarrow> occurrences pat x = 0"
  by (simp add: occurrences_zero py_in_sublist)

lemma occurrences_frame:
  assumes "pat \<noteq> []" and "CHR 0x0A \<notin> set pat"
    and "\<not> sublist pat P" and "\<not> sublist pat Q"
    and "P = [] \<or> last P = CHR 0x0A" and "B \<noteq> []" and "last B = CHR 0x0A"
  shows "occurrences pat (P @ B @ Q) = occurrences pat B"
proof -
  have "straddle_free pat P (B @ Q)"
    using assms(2,5) by (cases "P = []") (auto intro: straddle_free_last)
  then have "occurrences pat (P @ B @ Q) = occurrences pat P + occurrences pat (B @ Q)"
    using assms(1) by (simp add: occurrences_append)
  moreover have "straddle_free pat B Q"
    using assms(2,6,7) by (auto intro: straddle_free_last)
  then have "occurrences pat (B @ Q) = occurrences pat B + occurrences pat Q"
    using assms(1) by (simp add: occurrences_append)
  ultimately show ?thesis using assms(3,4) by (simp add: occurrences_clean)
qed

lemma straddle_free_marker:
  "CHR ''#'' \<notin> set (tl pat) \<Longrightarrow> straddle_free pat x (SCRIPT_RUNNER_END @ y)"
  "CHR 0x0A \<notin> set (tl pat) \<Longrightarrow> straddle_free pat x (NL @ y)"
  by (simp_all add: SCRIPT_RUNNER_END_def NL_def straddle_free_hd)

lemma occurrences_START_block:
  assumes "\<not> sublist SCRIPT_RUNNER_START (binding_lines meta)"
  shows "occurrences SCRIPT_RUNNER_START (runner_block meta) = 1"
proof -
  have t: "CHR 0x0A \<notin> set (tl SCRIPT_RUNNER_START)" by (simp add: SCRIPT_RUNNER_START_def)
  have "occurrences SCRIPT_RUNNER_START (binding_lines meta @ SCRIPT_RUNNER_END @ NL @ NL)
      = occurrences SCRIPT_RUNNER_START (binding_lines meta)
        + occurrences SCRIPT_RUNNER_START (SCRIPT_RUNNER_END @ NL @ NL)"
    by (rule occurrences_append) (simp_all add: START_facts straddle_free_marker)
  also have "occurrences SCRIPT_RUNNER_START (SCRIPT_RUNNER_END @ NL @ NL) = 0"
    by (simp add: SCRIPT_RUNNER_START_def SCRIPT_RUNNER_END_def NL_def)
  finally have b: "occurrences SCRIPT_RUNNER_START (binding_lines meta @ SCRIPT_RUNNER_END @ NL @ NL) = 0"
    using assms by (simp add: occurrences_clean)
  have "occurrences SCRIPT_RUNNER_START
          (NL @ (binding_lines meta @ SCRIPT_RUNNER_END @ NL @ NL))
      = occurrences SCRIPT_RUNNER_START NL
        + occurrences SCRIPT_RUNNER_START (binding_lines meta @ SCRIPT_RUNNER_END @ NL @ NL)"
    by (rule occurrences_append) (simp_all add: START_facts NL_def straddle_free_last)
  also have "occurrences SCRIPT_RUNNER_START NL = 0"
    by (simp add: SCRIPT_RUNNER_START_def NL_def)
  finally have n: "occurrences SCRIPT_RUNNER_START
          (NL @ (binding_lines meta @ SCRIPT_RUNNER_END @ NL @ NL)) = 0"
    using b by simp
  have "occurrences SCRIPT_RUNNER_START
          (SCRIPT_RUNNER_START @ (NL @ (binding_lines meta @ SCRIPT_RUNNER_END @ NL @ NL)))
      = occurrences SCRIPT_RUNNER_START SCRIPT_RUNNER_START
        + occurrences SCRIPT_RUNNER_START
            (NL @ (binding_lines meta @ SCRIPT_RUNNER_END @ NL @ NL))"
    by (rule occurrences_append) (simp_all add: START_facts t straddle_free_marker)
  also have "occurrences SCRIPT_RUNNER_START SCRIPT_RUNNER_START = 1"
    by (simp add: SCRIPT_RUNNER_START_def)
  finally show ?thesis using n by (simp add: runner_block_def)
qed

lemma occurrences_END_block:
  assumes "\<not> sublist SCRIPT_RUNNER_END (binding_lines meta)"
  shows "occurrences SCRIPT_RUNNER_END (runner_block meta) = 1"
proof -
  have t: "CHR 0x0A \<notin> set (tl SCRIPT_RUNNER_END)" by (simp add: SCRIPT_RUNNER_END_def)
  have "occurrences SCRIPT_RUNNER_END (binding_lines meta @ SCRIPT_RUNNER_END @ NL @ NL)
      = occurrences SCRIPT_RUNNER_END (binding_lines meta)
        + occurrences SCRIPT_RUNNER_END (SCRIPT_RUNNER_END @ NL @ NL)"
    by (rule occurrences_append) (simp_all add: END_facts straddle_free_marker)
  also have "occurrences SCRIPT_RUNNER_END (SCRIPT_RUNNER_END @ NL @ NL) = 1"
    by (simp add: SCRIPT_RUNNER_END_def NL_def)
  finally have b: "occurrences SCRIPT_RUNNER_END (binding_lines meta @ SCRIPT_RUNNER_END @ NL @ NL) = 1"
    using assms by (simp add: occurrences_clean)
  have "occurrences SCRIPT_RUNNER_END
          (NL @ (binding_lines meta @ SCRIPT_RUNNER_END @ NL @ NL))
      = occurrences SCRIPT_RUNNER_END NL
        + occurrences SCRIPT_RUNNER_END (binding_lines meta @ SCRIPT_RUNNER_END @ NL @ NL)"
    by (rule occurrences_append) (simp_all add: END_facts NL_def straddle_free_last)
  also have "occurrences SCRIPT_RUNNER_END NL = 0"
    by (simp add: SCRIPT_RUNNER_END_def NL_def)
  finally have n: "occurrences SCRIPT_RUNNER_END
          (NL @ (binding_lines meta @ SCRIPT_RUNNER_END @ NL @ NL)) = 1"
    using b by simp
  have "occurrences SCRIPT_RUNNER_END
          (SCRIPT_RUNNER_START @ (NL @ (binding_lines meta @ SCRIPT_RUNNER_END @ NL @ NL)))
      = occurrences SCRIPT_RUNNER_END SCRIPT_RUNNER_START
        + occurrences SCRIPT_RUNNER_END
            (NL @ (binding_lines meta @ SCRIPT_RUNNER_END @ NL @ NL))"
    by (rule occurrences_append) (simp_all add: END_facts t straddle_free_marker)
  also have "occurrences SCRIPT_RUNNER_END SCRIPT_RUNNER_START = 0"
    by (simp add: SCRIPT_RUNNER_START_def SCRIPT_RUNNER_END_def)
  finally show ?thesis using n by (simp add: runner_block_def)
qed

lemma runner_block_last: "runner_block meta \<noteq> []" "last (runner_block meta) = CHR 0x0A"
  by (simp_all add: runner_block_def NL_def)

lemma one_block_occurrences:
  assumes "\<not> sublist SCRIPT_RUNNER_START (binding_lines meta)"
    and "\<not> sublist SCRIPT_RUNNER_END (binding_lines meta)"
    and "one_block meta x"
  shows "occurrences SCRIPT_RUNNER_START x = 1" and "occurrences SCRIPT_RUNNER_END x = 1"
    and "sublist (runner_block meta) x"
proof -
  from assms(3) obtain P Q where x: "x = P @ runner_block meta @ Q"
    and f: "marker_free P" "marker_free Q" "P = [] \<or> last P = CHR 0x0A"
    unfolding one_block_def by blast
  show "sublist (runner_block meta) x" unfolding x by simp
  have "occurrences SCRIPT_RUNNER_START x = occurrences SCRIPT_RUNNER_START (runner_block meta)"
    unfolding x using f
    by (intro occurrences_frame) (simp_all add: START_facts marker_free_def runner_block_last)
  then show "occurrences SCRIPT_RUNNER_START x = 1"
    using assms(1) by (simp add: occurrences_START_block)
  have "occurrences SCRIPT_RUNNER_END x = occurrences SCRIPT_RUNNER_END (runner_block meta)"
    unfolding x using f
    by (intro occurrences_frame) (simp_all add: END_facts marker_free_def runner_block_last)
  then show "occurrences SCRIPT_RUNNER_END x = 1"
    using assms(2) by (simp add: occurrences_END_block)
qed

text \<open>The block markers are counted first: after two transformations each occurs once,
  whatever the user setting marker does.\<close>

lemma transform_twice_one_block:
  assumes "\<not> py_in SCRIPT_RUNNER_START s" and "\<not> py_in SCRIPT_RUNNER_END s"
    and "\<not> py_in SCRIPT_RUNNER_START (binding_lines meta)"
    and "\<not> py_in SCRIPT_RUNNER_END (binding_lines meta)"
  shows "occurrences SCRIPT_RUNNER_START (transform_script meta (transform_script meta s)) = 1
       \<and> occurrences SCRIPT_RUNNER_END (transform_script meta (transform_script meta s)) = 1
       \<and> py_in (runner_block meta) (transform_script meta (transform_script meta s))"
proof -
  have b: "\<not> sublist SCRIPT_RUNNER_START (binding_lines meta)"
      "\<not> sublist SCRIPT_RUNNER_END (binding_lines meta)"
    using assms(3,4) by (simp_all add: py_in_sublist)
  have "marker_free s" using assms(1,2) by (simp add: marker_free_def py_in_sublist)
  then have "one_block meta (transform_script meta s)" by (rule transform_script_initial)
  with b(2) have "one_block meta (transform_script meta (transform_script meta s))"
    by (rule transform_script_step)
  with b show ?thesis by (simp add: one_block_occurrences py_in_sublist)
qed

text \<open>The count holds after any number of transformations, and a marker that the script
  text itself contains is kept: with a stray end marker the count is two.\<close>

lemma transform_repeated_one_block:
  assumes "\<not> py_in SCRIPT_RUNNER_START s" and "\<not> py_in SCRIPT_RUNNER_END s"
    and "\<not> py_in SCRIPT_RUNNER_START (binding_lines meta)"
    and "\<not> py_in SCRIPT_RUNNER_END (binding_lines meta)"
  shows "occurrences SCRIPT_RUNNER_START ((transform_script meta ^^ Suc n) s) = 1
       \<and> occurrences SCRIPT_RUNNER_END ((transform_script meta ^^ Suc n) s) = 1"
proof -
  have b: "\<not> sublist SCRIPT_RUNNER_START (binding_lines meta)"
      "\<not> sublist SCRIPT_RUNNER_END (binding_lines meta)"
    using assms(3,4) by (simp_all add: py_in_sublist)
  have "marker_free s" using assms(1,2) by (simp add: marker_free_def py_in_sublist)
  then have "one_block meta ((transform_script meta ^^ Suc n) s)"
  proof (induction n)
    case 0 then show ?case by (simp add: transform_script_initial)
  next
    case (Suc n)
    then have "one_block meta ((transform_script meta ^^ Suc n) s)" by blast
    with b(2) have "one_block meta (transform_script meta ((transform_script meta ^^ Suc n) s))"
      by (rule transform_script_step)
    then show ?case by simp
  qed
  with b show ?thesis by (simp add: one_block_occurrences)
qed

lemma stray_end_marker_kept:
  "occurrences SCRIPT_RUNNER_END
     (transform_script \<lparr>meta_description = None, meta_args = [], meta_options = []\<rparr>
        (transform_script \<lparr>meta_description = None, meta_args = [], meta_options = []\<rparr>
           (''echo '' @ SCRIPT_RUNNER_END))) = 2"
  by code_simp

section \<open>The second transformation, up to newlines\<close>





lemma line_breaks_Nil [simp]: "\<not> line_breaks []"
  by (simp add: line_breaks_def strip_def)





























text \<open>The texts of this example, and of a script with a user setting section.\<close>

lemma transform_twice_examples:
  "transform_script greet_meta greet_script
     = ''#!/bin/bash'' @ NL @ NL @ runner_block greet_meta @ ''echo hello'' @ NL
   \<and> transform_script greet_meta (transform_script greet_meta greet_script)
     = ''#!/bin/bash'' @ NL @ NL @ runner_block greet_meta @ NL @ NL @ ''echo hello'' @ NL
   \<and> transform_script greet_meta (''# USER SETTING'' @ NL @ ''A=1'' @ NL)
     = ''# USER SETTING'' @ NL @ NL @ runner_block greet_meta @ ''A=1'' @ NL
   \<and> transform_script greet_meta
       (transform_script greet_meta (''# USER SETTING'' @ NL @ ''A=1'' @ NL))
     = ''# USER SETTING'' @ NL @ NL @ NL @ NL @ runner_block greet_meta @ ''A=1'' @ NL"
  by code_simp

end
